theory Spec2Isabelle
  imports Main
begin

unbundle bit_operations_syntax

section \<open>Python strings\<close>

text \<open>
  A Python \<open>str\<close> is a sequence of Unicode code points. It is modelled as a list of
  natural numbers, one per code point, so that \<open>len\<close> is \<open>length\<close> and the line
  and whitespace classes of \<open>str.splitlines\<close> and \<open>str.split\<close> can be written
  out in full (several of their members lie beyond the 8-bit range).
\<close>

type_synonym pystr = "nat list"

definition str :: "string \<Rightarrow> pystr" where
  "str s = map of_char s"

text \<open>
  The line boundaries of \<open>str.splitlines\<close>: LF, VT, FF, CR, FS, GS, RS, NEL, LS and PS;
  the pair CR LF counts as one boundary.
\<close>

definition is_linebreak :: "nat \<Rightarrow> bool" where
  "is_linebreak c = (c \<in> {10, 11, 12, 13, 28, 29, 30, 133, 8232, 8233})"

text \<open>
  \<open>s.splitlines(keepends)\<close>: \<open>cur\<close> holds the code points of the line being read.
  A last line with no terminator is a line when it is not empty.
\<close>

fun splitlines_aux :: "bool \<Rightarrow> pystr \<Rightarrow> pystr \<Rightarrow> pystr list" where
  "splitlines_aux keepends cur [] = (if cur = [] then [] else [cur])"
| "splitlines_aux keepends cur (c # cs) =
     (if \<not> is_linebreak c then splitlines_aux keepends (cur @ [c]) cs
      else (case cs of
              d # ds \<Rightarrow>
                if c = 13 \<and> d = 10
                then (cur @ (if keepends then [c, d] else [])) # splitlines_aux keepends [] ds
                else (cur @ (if keepends then [c] else [])) # splitlines_aux keepends [] cs
            | [] \<Rightarrow> [cur @ (if keepends then [c] else [])]))"

definition splitlines :: "bool \<Rightarrow> pystr \<Rightarrow> pystr list" where
  "splitlines keepends s = splitlines_aux keepends [] s"

text \<open>Slices \<open>s[a:b]\<close> and \<open>s[a:]\<close> for indices that are not negative.\<close>

definition slice :: "nat \<Rightarrow> nat \<Rightarrow> 'a list \<Rightarrow> 'a list" where
  "slice a b xs = take (b - a) (drop a xs)"

definition slice_from :: "nat \<Rightarrow> 'a list \<Rightarrow> 'a list" where
  "slice_from a xs = drop a xs"

text \<open>
  The whitespace of \<open>str.split()\<close> and \<open>str.isspace\<close>: TAB to CR, FS to US, the
  space, NEL, the no-break space and the Unicode spaces and separators.
\<close>

definition is_space :: "nat \<Rightarrow> bool" where
  "is_space c =
     ((9 \<le> c \<and> c \<le> 13) \<or> (28 \<le> c \<and> c \<le> 32) \<or> c = 133 \<or> c = 160 \<or> c = 5760 \<or>
      (8192 \<le> c \<and> c \<le> 8202) \<or> c = 8232 \<or> c = 8233 \<or> c = 8239 \<or> c = 8287 \<or>
      c = 12288)"

text \<open>
  \<open>s.split()\<close> with no separator: the maximal runs of code points that are not
  whitespace; \<open>cur\<close> holds the run being read.
\<close>

fun split_aux :: "pystr \<Rightarrow> pystr \<Rightarrow> pystr list" where
  "split_aux cur [] = (if cur = [] then [] else [cur])"
| "split_aux cur (c # cs) =
     (if is_space c then (if cur = [] then split_aux [] cs else cur # split_aux [] cs)
      else split_aux (cur @ [c]) cs)"

definition str_split :: "pystr \<Rightarrow> pystr list" where
  "str_split s = split_aux [] s"

text \<open>\<open>sep.join(xs)\<close>.\<close>

fun join :: "pystr \<Rightarrow> pystr list \<Rightarrow> pystr" where
  "join sep [] = []"
| "join sep [x] = x"
| "join sep (x # y # ys) = x @ sep @ join sep (y # ys)"

section \<open>Python values and exceptions\<close>

text \<open>
  The values that the functions below return or pass on: \<open>None\<close>, integers, strings,
  and objects of the surrounding program (tournament accounts, roles and channels),
  each identified by a number.
\<close>

datatype pyval = PyNone | PyInt int | PyStr pystr | PyAccount nat | PyRole nat | PyChannel nat

text \<open>
  The exceptions that are raised: \<open>IndexError\<close> by an index out of range,
  \<open>StopAsyncIteration\<close> by an exhausted iterator, and \<open>Raised n\<close> for an exception
  raised inside a collaborator. All are instances of \<open>Exception\<close>.
\<close>

datatype exn = IndexError | StopAsyncIteration | Raised nat

text \<open>
  A dictionary keeps its keys in insertion order; assigning to a key that is present
  replaces the value and keeps the key's place.
\<close>

type_synonym ('k, 'v) dict = "('k \<times> 'v) list"

fun dict_set :: "('k, 'v) dict \<Rightarrow> 'k \<Rightarrow> 'v \<Rightarrow> ('k, 'v) dict" where
  "dict_set [] k v = [(k, v)]"
| "dict_set ((k', v') # d) k v = (if k' = k then (k, v) # d else (k', v') # dict_set d k v)"

text \<open>\<open>d.update(other)\<close>.\<close>

definition dict_update :: "('k, 'v) dict \<Rightarrow> ('k, 'v) dict \<Rightarrow> ('k, 'v) dict" where
  "dict_update d other = fold (\<lambda>(k, v) acc. dict_set acc k v) other d"

section \<open>utils.py\<close>

subsection \<open>paginate\<close>

text \<open>
  The loop of \<open>paginate\<close> over \<open>enumerate(split)\<close>; \<open>n\<close> is \<open>len(split)\<close>, and the
  loop variables \<open>page_index\<close>, \<open>len_count\<close> and \<open>paginated\<close> are passed along.
\<close>

fun paginate_loop ::
  "pystr \<Rightarrow> int \<Rightarrow> nat \<Rightarrow> (nat \<times> pystr) list \<Rightarrow> nat \<Rightarrow> nat \<Rightarrow> pystr list \<Rightarrow> pystr list"
where
  "paginate_loop dump max_per_page n [] page_index len_count paginated = paginated"
| "paginate_loop dump max_per_page n ((i, line) # rest) page_index len_count paginated =
     (if int i = int n - 1 then
        paginate_loop dump max_per_page n rest page_index len_count
          (paginated @ [slice_from page_index dump])
      else if int len_count + int (length line) \<ge> max_per_page then
        paginate_loop dump max_per_page n rest (page_index + len_count) (length line)
          (paginated @ [slice page_index (page_index + len_count) dump])
      else
        paginate_loop dump max_per_page n rest page_index (len_count + length line) paginated)"

definition paginate :: "pystr \<Rightarrow> int \<Rightarrow> pystr list" where
  "paginate dump max_per_page =
     (if int (length dump) < max_per_page then [dump]
      else
        (let split = splitlines True dump
         in paginate_loop dump max_per_page (length split) (enumerate 0 split) 0 0 []))"

text \<open>
  The offsets at which the pieces of a list of strings begin and end in their
  concatenation: \<open>0\<close>, the length of the first piece, of the first two, and so on.
\<close>

fun offsets_from :: "nat \<Rightarrow> 'a list list \<Rightarrow> nat list" where
  "offsets_from a [] = [a]"
| "offsets_from a (x # xs) = a # offsets_from (a + length x) xs"

definition offsets :: "'a list list \<Rightarrow> nat list" where
  "offsets xs = offsets_from 0 xs"

subsection \<open>get_user_id_from_mention\<close>

text \<open>
  One attempt of the \<open>re\<close> engine to match \<open><@!?([0-9]+)>\<close> at the start of \<open>s\<close>:
  the group and what follows the match. The code points are \<open><\<close> 60, \<open>@\<close> 64,
  \<open>!\<close> 33, \<open>>\<close> 62 and the digits 48 to 57 (a class written \<open>[0-9]\<close> holds the
  ASCII digits only). \<open>!?\<close> and \<open>+\<close> are greedy. When the greedy choice fails the
  engine backtracks, to no effect here: without the \<open>!\<close> the next code point would
  have to be a digit and is \<open>!\<close>, and with fewer digits the next one would have to be
  \<open>>\<close> and is a digit. Lemma \<open>match_mention_iff\<close> below states that the attempt
  succeeds exactly on the strings the pattern describes.
\<close>

definition is_digit :: "nat \<Rightarrow> bool" where
  "is_digit c = (48 \<le> c \<and> c \<le> 57)"

definition optional_bang :: "pystr \<Rightarrow> pystr" where
  "optional_bang t = (case t of [] \<Rightarrow> t | c # v \<Rightarrow> if c = 33 then v else t)"

definition match_mention :: "pystr \<Rightarrow> (pystr \<times> pystr) option" where
  "match_mention s =
     (case s of
        a # b # t \<Rightarrow>
          if a = 60 \<and> b = 64 then
            (let u = optional_bang t;
                 ds = takeWhile is_digit u;
                 r = dropWhile is_digit u
             in (case r of
                   [] \<Rightarrow> None
                 | e # rest \<Rightarrow> if ds \<noteq> [] \<and> e = 62 then Some (ds, rest) else None))
          else None
      | _ \<Rightarrow> None)"

lemma match_mention_iff:
  "match_mention s = Some (ds, rest) \<longleftrightarrow>
     ds \<noteq> [] \<and> list_all is_digit ds \<and>
     (\<exists>bang. (bang = [] \<or> bang = [33]) \<and> s = [60, 64] @ bang @ ds @ [62] @ rest)"
  (is "?L \<longleftrightarrow> ?R")
proof
  assume L: ?L
  then obtain t where s: "s = 60 # 64 # t"
    by (auto simp: match_mention_def split: list.splits if_splits)
  define u where "u = optional_bang t"
  have t: "t = u \<or> t = 33 # u"
    by (auto simp: u_def optional_bang_def split: list.splits)
  from L s have "dropWhile is_digit u = 62 # rest" and ds: "ds = takeWhile is_digit u" and "ds \<noteq> []"
    by (auto simp: match_mention_def Let_def u_def split: list.splits if_splits)
  then have u: "u = ds @ 62 # rest"
    using takeWhile_dropWhile_id [of is_digit u] by simp
  have "list_all is_digit ds"
    unfolding ds list_all_iff by (auto dest: set_takeWhileD)
  with \<open>ds \<noteq> []\<close> s t u show ?R by auto
next
  assume R: ?R
  then obtain bang where ds: "ds \<noteq> []" "list_all is_digit ds"
    and bang: "bang = [] \<or> bang = [33]"
    and s: "s = [60, 64] @ bang @ ds @ [62] @ rest"
    by blast
  from ds obtain d ds' where dd: "ds = d # ds'" "is_digit d"
    by (cases ds) auto
  then have d33: "d \<noteq> 33" by (auto simp: is_digit_def)
  have n62: "\<not> is_digit 62" by (simp add: is_digit_def)
  have tw: "takeWhile is_digit (ds @ 62 # rest) = ds"
    using ds(2) n62 by (simp add: list_all_iff takeWhile_append2)
  have dw: "dropWhile is_digit (ds @ 62 # rest) = 62 # rest"
    using ds(2) n62 by (simp add: list_all_iff dropWhile_append2)
  from bang show ?L
  proof
    assume "bang = []"
    then have "s = 60 # 64 # d # ds' @ 62 # rest" using s dd by simp
    then show ?L
      using d33 tw dw ds(1) unfolding dd by (simp add: match_mention_def Let_def optional_bang_def)
  next
    assume "bang = [33]"
    then have "s = 60 # 64 # 33 # ds @ 62 # rest" using s by simp
    then show ?L
      using tw dw ds(1) by (simp add: match_mention_def Let_def optional_bang_def)
  qed
qed

lemma match_mention_shorter:
  "match_mention s = Some (g, rest) \<Longrightarrow> length rest < length s"
  by (auto simp: match_mention_iff)

lemma match_mention_head:
  "match_mention (c # cs) = Some x \<Longrightarrow> c = 60"
  by (cases x) (auto simp: match_mention_iff)

text \<open>
  \<open>re.findall\<close>: the groups of the matches found scanning from the left, each search
  resuming where the last match ended, or one code point further when there is no match
  at a position.
\<close>

function findall_mention :: "pystr \<Rightarrow> pystr list" where
  "findall_mention s =
     (if s = [] then []
      else (case match_mention s of
              Some (g, rest) \<Rightarrow> g # findall_mention rest
            | None \<Rightarrow> findall_mention (tl s)))"
  by pat_completeness auto
termination
  by (relation "measure length") (auto dest: match_mention_shorter)

definition get_user_id_from_mention :: "pystr \<Rightarrow> pyval" where
  "get_user_id_from_mention mention =
     (let regexRes = findall_mention mention
      in if length regexRes = 1 then PyStr (regexRes ! 0) else PyInt 0)"

text \<open>
  An occurrence of the pattern, following the spec's words: \<open><@DIGITS>\<close> or
  \<open><@!DIGITS>\<close> stands in the token at position \<open>i\<close>, with \<open>ds\<close> for DIGITS.
\<close>

definition mention_at :: "pystr \<Rightarrow> nat \<Rightarrow> pystr \<Rightarrow> bool" where
  "mention_at token i ds \<longleftrightarrow>
     i < length token \<and> ds \<noteq> [] \<and> list_all is_digit ds \<and>
     (\<exists>bang rest. (bang = [] \<or> bang = str ''!'') \<and>
        drop i token = str ''<@'' @ bang @ ds @ str ''>'' @ rest)"


text \<open>The occurrences of a token, computed: position and digits.\<close>

definition mention_list :: "pystr \<Rightarrow> (nat \<times> pystr) list" where
  "mention_list token =
     concat (map (\<lambda>j. case match_mention (drop j token) of
                          Some (ds, rest) \<Rightarrow> [(j, ds)]
                        | None \<Rightarrow> [])
                 [0..<length token])"

section \<open>commands_core.py\<close>

subsection \<open>The collaborators\<close>

text \<open>
  The chat platform's objects, with the attributes that the module reads. A user is
  identified by its id, and so are the roles and channels of a server.
\<close>

record Channel =
  chan_id :: nat
  is_private :: bool
  channel_name :: pystr

record Server =
  server_id :: nat
  server_name :: pystr
  roles :: "nat list"
  channels :: "nat list"

record Message =
  content :: pystr
  author :: nat
  channel :: Channel
  server :: Server
  mentions :: "nat list"

record Client =
  user :: nat

text \<open>The tournament record of the persistence layer.\<close>

record Tournament =
  host_id :: nat
  challonge_id :: nat
  role_id :: nat
  channel_id :: nat

datatype ChallongeAccess = NotRequired | RequiredForAuthor | RequiredForHost

text \<open>The errors that the account lookup reports.\<close>

datatype account_error = UserNotFound | UserNameNotSet | APIKeyNotSet | InvalidCredentials

text \<open>
  The error values of validation: the four classes that the module defines, and the
  account lookup's own errors, passed through. They are returned, not raised.
\<close>

datatype error =
    MissingParameters nat nat
  | WrongChannel
  | InsufficientPrivileges
  | BadTournamentState
  | AccountError account_error

text \<open>
  A function object: its \<open>__name__\<close>, its \<open>__doc__\<close>, and for a closure the function
  that it captured.
\<close>

datatype pyfunc = PyFunc (fn_name: pystr) (fn_doc: "pystr option") (fn_closure: "pyfunc option")

type_synonym kwargs = "(pystr, pyval) dict"

text \<open>
  The modules that \<open>commands_core\<close> imports and does not define, as a record of what
  they compute. A permission level is an integer and a channel type a bit mask.
  \<open>get_account\<close> returns the pair (account, error) as the source unpacks it.
  \<open>validate_tournament_state\<close> returns a truth value or raises. \<open>call\<close> is the
  outcome of awaiting a callback: the exception it raised, if any.
\<close>

record Env =
  Permissions_User :: int
  ChannelType_Other :: nat
  get_permissions :: "nat \<Rightarrow> Channel \<Rightarrow> int"
  get_channel_type :: "Channel \<Rightarrow> nat"
  get_account :: "nat \<Rightarrow> nat option \<times> account_error option"
  validate_tournament_state :: "nat \<Rightarrow> nat \<Rightarrow> nat \<Rightarrow> exn + bool"
  get_tournament :: "Channel \<Rightarrow> Tournament"
  get_server_trigger :: "Server \<Rightarrow> pystr"
  get_user_name :: "nat \<Rightarrow> pystr"
  call :: "pyfunc \<Rightarrow> Client \<Rightarrow> Message \<Rightarrow> kwargs \<Rightarrow> exn option"

subsection \<open>Attributes and Command\<close>

record Attributes =
  minPermissions :: int
  channelRestrictions :: nat
  challongeAccess :: ChallongeAccess
  tournamentState :: "nat option"

text \<open>The keyword arguments of \<open>Attributes(**kwargs)\<close>: each key is given or not.\<close>

record AttributesKwargs =
  kw_minPermissions :: "int option"
  kw_channelRestrictions :: "nat option"
  kw_challongeAccess :: "ChallongeAccess option"
  kw_tournamentState :: "nat option option"

text \<open>\<open>kwargs.get(key, default)\<close>.\<close>

definition kwargs_get :: "'a option \<Rightarrow> 'a \<Rightarrow> 'a" where
  "kwargs_get v dflt = (case v of Some x \<Rightarrow> x | None \<Rightarrow> dflt)"

definition Attributes_init :: "Env \<Rightarrow> AttributesKwargs \<Rightarrow> Attributes" where
  "Attributes_init env kwargs =
     \<lparr>minPermissions = kwargs_get (kw_minPermissions kwargs) (Permissions_User env),
      channelRestrictions = kwargs_get (kw_channelRestrictions kwargs) (ChannelType_Other env),
      challongeAccess = kwargs_get (kw_challongeAccess kwargs) NotRequired,
      tournamentState = kwargs_get (kw_tournamentState kwargs) None\<rparr>"

record Command =
  name :: pystr
  cb :: pyfunc
  attributes :: Attributes
  aliases :: "pystr list"
  reqParams :: "pystr list"
  optParams :: "pystr list"
  helpers :: "pystr list"

definition Command_init :: "pystr \<Rightarrow> pyfunc \<Rightarrow> Attributes \<Rightarrow> Command" where
  "Command_init name' cb' attributes' =
     \<lparr>name = name', cb = cb', attributes = attributes',
      aliases = [], reqParams = [], optParams = [], helpers = []\<rparr>"

text \<open>
  The builder methods assign to a field of \<open>self\<close> and return \<open>self\<close>. Which object is
  returned matters, so these four are modelled on a store of Command objects: a
  reference is a number, and the store maps the references in use to the state of
  their objects. The result is the reference returned and the store after the call.
  The other methods only read \<open>self\<close> and take the object's state.
\<close>

type_synonym store = "nat \<rightharpoonup> Command"

definition add_required_params :: "nat \<Rightarrow> pystr list \<Rightarrow> store \<Rightarrow> nat \<times> store" where
  "add_required_params self args s =
     (self, s(self := map_option (\<lambda>c. c\<lparr>reqParams := args\<rparr>) (s self)))"

definition add_optional_params :: "nat \<Rightarrow> pystr list \<Rightarrow> store \<Rightarrow> nat \<times> store" where
  "add_optional_params self args s =
     (self, s(self := map_option (\<lambda>c. c\<lparr>optParams := args\<rparr>) (s self)))"

definition add_aliases :: "nat \<Rightarrow> pystr list \<Rightarrow> store \<Rightarrow> nat \<times> store" where
  "add_aliases self args s =
     (self, s(self := map_option (\<lambda>c. c\<lparr>aliases := args\<rparr>) (s self)))"

definition add_helpers :: "nat \<Rightarrow> pystr list \<Rightarrow> store \<Rightarrow> nat \<times> store" where
  "add_helpers self args s =
     (self, s(self := map_option (\<lambda>c. c\<lparr>helpers := args\<rparr>) (s self)))"

subsection \<open>validate_context\<close>

text \<open>
  The result is \<open>Inl\<close> of the exception when the call raises, and \<open>Inr\<close> of the pair
  (validated, error) that it returns otherwise. An error or an account that is not
  \<open>None\<close> is true in a condition, and so is a tournament state that is set.
  \<open>param_check\<close> stands for the last lines of the method, which every path that
  has not returned reaches.
\<close>

definition validate_context ::
  "Env \<Rightarrow> Command \<Rightarrow> Client \<Rightarrow> Message \<Rightarrow> pystr list \<Rightarrow> exn + (bool \<times> error option)"
where
  "validate_context env self client message postCommand =
     (let param_check =
            (let reqParamsExpected = length (reqParams self);
                 givenParams = length postCommand
             in if givenParams < reqParamsExpected
                then Inr (False, Some (MissingParameters reqParamsExpected givenParams))
                else Inr (True, None))
      in
      if get_permissions env (author message) (channel message)
           < minPermissions (attributes self)
      then Inr (False, Some InsufficientPrivileges)
      else if get_channel_type env (channel message) AND channelRestrictions (attributes self) = 0
      then Inr (False, Some WrongChannel)
      else if challongeAccess (attributes self) = RequiredForAuthor then
        (case get_account env (author message) of
           (acc, Some exc) \<Rightarrow> Inr (False, Some (AccountError exc))
         | (acc, None) \<Rightarrow> param_check)
      else if challongeAccess (attributes self) = RequiredForHost then
        (let db_t = get_tournament env (channel message)
         in case get_account env (host_id db_t) of
              (acc, Some exc) \<Rightarrow> Inr (False, Some (AccountError exc))
            | (None, None) \<Rightarrow> param_check
            | (Some a, None) \<Rightarrow>
                (case tournamentState (attributes self) of
                   None \<Rightarrow> param_check
                 | Some st \<Rightarrow>
                     (case validate_tournament_state env a (challonge_id db_t) st of
                        Inl e \<Rightarrow> Inl e
                      | Inr ok \<Rightarrow>
                          if \<not> ok then Inr (False, Some BadTournamentState)
                          else param_check)))
      else param_check)"

definition validate_name :: "Command \<Rightarrow> pystr \<Rightarrow> bool" where
  "validate_name self name' =
     (if name self = name' then True else name' \<in> set (aliases self))"

subsection \<open>Arguments and helpers\<close>

text \<open>
  The two loops of \<open>_fetch_args\<close>. Reading \<open>postCommand[count]\<close> past the end raises
  \<open>IndexError\<close>.
\<close>

fun fetch_required :: "(nat \<times> pystr) list \<Rightarrow> pystr list \<Rightarrow> kwargs \<Rightarrow> exn + kwargs" where
  "fetch_required [] postCommand kwargs = Inr kwargs"
| "fetch_required ((count, x) # rest) postCommand kwargs =
     (if count < length postCommand
      then fetch_required rest postCommand (dict_set kwargs x (PyStr (postCommand ! count)))
      else Inl IndexError)"

fun fetch_optional :: "nat \<Rightarrow> (nat \<times> pystr) list \<Rightarrow> pystr list \<Rightarrow> kwargs \<Rightarrow> kwargs" where
  "fetch_optional offset [] postCommand kwargs = kwargs"
| "fetch_optional offset ((count, x) # rest) postCommand kwargs =
     (if count + offset < length postCommand
      then fetch_optional offset rest postCommand
             (dict_set kwargs x (PyStr (postCommand ! (count + offset))))
      else fetch_optional offset rest postCommand kwargs)"

definition fetch_args :: "Command \<Rightarrow> pystr list \<Rightarrow> exn + kwargs" where
  "fetch_args self postCommand =
     (case fetch_required (enumerate 0 (reqParams self)) postCommand [] of
        Inl e \<Rightarrow> Inl e
      | Inr kwargs \<Rightarrow>
          (let offset = length (reqParams self)
           in Inr (fetch_optional offset (enumerate 0 (optParams self)) postCommand kwargs)))"

text \<open>\<open>discord.utils.find(lambda r: r.id == i, xs)\<close>: the first element with that id.\<close>

definition find_by_id :: "(nat \<Rightarrow> pyval) \<Rightarrow> nat \<Rightarrow> nat list \<Rightarrow> pyval" where
  "find_by_id wrap i xs = (case List.find (\<lambda>r. r = i) xs of Some r \<Rightarrow> wrap r | None \<Rightarrow> PyNone)"

definition account_value :: "nat option \<Rightarrow> pyval" where
  "account_value acc = (case acc of Some a \<Rightarrow> PyAccount a | None \<Rightarrow> PyNone)"

text \<open>The body of the loop of \<open>_fetch_helpers\<close>, for the helper name \<open>x\<close>.\<close>

definition fetch_helper ::
  "Env \<Rightarrow> Command \<Rightarrow> Message \<Rightarrow> pystr list \<Rightarrow> pystr \<Rightarrow> kwargs \<Rightarrow> kwargs"
where
  "fetch_helper env self message postCommand x kwargs =
     (if x = str ''account'' then
        (if challongeAccess (attributes self) = RequiredForAuthor
         then dict_set kwargs x (account_value (fst (get_account env (author message))))
         else dict_set kwargs x
                (account_value
                   (fst (get_account env (host_id (get_tournament env (channel message)))))))
      else if x = str ''tournament_id'' then
        dict_set kwargs x (PyInt (int (challonge_id (get_tournament env (channel message)))))
      else if x = str ''tournament_role'' then
        (let roleid = role_id (get_tournament env (channel message))
         in dict_set kwargs x (find_by_id PyRole roleid (roles (server message))))
      else if x = str ''tournament_channel'' then
        (let channelid = channel_id (get_tournament env (channel message))
         in dict_set kwargs x (find_by_id PyChannel channelid (channels (server message))))
      else if x = str ''participant_username'' then
        dict_set kwargs x (PyStr (get_user_name env (author message)))
      else if x = str ''announcement'' then
        dict_set kwargs x (PyStr (join (str '' '') postCommand))
      else kwargs)"

fun fetch_helpers_loop ::
  "Env \<Rightarrow> Command \<Rightarrow> Message \<Rightarrow> pystr list \<Rightarrow> pystr list \<Rightarrow> kwargs \<Rightarrow> kwargs"
where
  "fetch_helpers_loop env self message postCommand [] kwargs = kwargs"
| "fetch_helpers_loop env self message postCommand (x # xs) kwargs =
     fetch_helpers_loop env self message postCommand xs
       (fetch_helper env self message postCommand x kwargs)"

definition fetch_helpers :: "Env \<Rightarrow> Command \<Rightarrow> Message \<Rightarrow> pystr list \<Rightarrow> kwargs" where
  "fetch_helpers env self message postCommand =
     fetch_helpers_loop env self message postCommand (helpers self) []"

subsection \<open>What the handler does\<close>

text \<open>
  The effects of message handling, in the order in which they happen: the console line
  for an exception (message content and exception), a chat message sent to a channel,
  the call of a command's callback with its keyword arguments, and the console line
  for an executed command (name, arguments, location).
\<close>

datatype event =
    Print_exception pystr exn
  | Send_message Channel error
  | Call_callback pyfunc kwargs
  | Print_validated pystr pystr pystr

text \<open>
  \<open>execute\<close>: the events, and the exception that ended the call, if any.
\<close>

definition execute ::
  "Env \<Rightarrow> Command \<Rightarrow> Client \<Rightarrow> Message \<Rightarrow> pystr list \<Rightarrow> event list \<times> exn option"
where
  "execute env self client message postCommand =
     (case fetch_args self postCommand of
        Inl e \<Rightarrow> ([], Some e)
      | Inr args \<Rightarrow>
          (let kwargs = dict_update [] args;
               kwargs = dict_update kwargs (fetch_helpers env self message postCommand)
           in ([Call_callback (cb self) kwargs], call env (cb self) client message kwargs)))"

subsection \<open>Descriptions\<close>

text \<open>
  \<open>simple_print\<close> takes the first line of the documentation with
  \<open>splitlines()[0]\<close>, which raises \<open>IndexError\<close> when the list of lines is empty.
\<close>

definition simple_print :: "Command \<Rightarrow> exn + pystr" where
  "simple_print self =
     (let a1 = (if length (reqParams self) = 0 then []
                else join (str '' '') (map (\<lambda>p. str ''['' @ p @ str '']'') (reqParams self)));
          a2 = (if length (optParams self) = 0 then []
                else join (str '' '') (map (\<lambda>p. str ''{'' @ p @ str ''}'') (optParams self)))
      in case fn_doc (cb self) of
           None \<Rightarrow>
             Inr (str ''`'' @ name self @ str ''` '' @ a1 @ a2 @ str '' -- *''
                  @ str ''No description available'' @ str ''*'')
         | Some doc \<Rightarrow>
             (case splitlines False doc of
                [] \<Rightarrow> Inl IndexError
              | line # _ \<Rightarrow>
                  Inr (str ''`'' @ name self @ str ''` '' @ a1 @ a2 @ str '' -- *''
                       @ line @ str ''*'')))"

definition pretty_print :: "Command \<Rightarrow> exn + pystr" where
  "pretty_print self =
     (case simple_print self of
        Inl e \<Rightarrow> Inl e
      | Inr s \<Rightarrow>
          Inr (s @ str ''\<newline>```''
               @ (case fn_doc (cb self) of None \<Rightarrow> [] | Some doc \<Rightarrow> doc)
               @ (if length (aliases self) = 0 then str ''No aliases''
                  else str ''Aliases: '' @ join (str '' / '') (aliases self))
               @ str ''```''))"

subsection \<open>CommandsHandler\<close>

text \<open>
  The registry holds the commands in the order of their registration. It is modelled
  as the list of the states that the Command objects have once the module is loaded.
\<close>

record CommandsHandler =
  commands :: "Command list"

definition CommandsHandler_init :: CommandsHandler where
  "CommandsHandler_init = \<lparr>commands = []\<rparr>"

definition add :: "CommandsHandler \<Rightarrow> Command \<Rightarrow> Command \<times> CommandsHandler" where
  "add self command = (command, self\<lparr>commands := commands self @ [command]\<rparr>)"

fun find_loop :: "Command list \<Rightarrow> pystr \<Rightarrow> Command option" where
  "find_loop [] name' = None"
| "find_loop (command # rest) name' =
     (if validate_name command name' then Some command else find_loop rest name')"

definition find_command :: "CommandsHandler \<Rightarrow> pystr \<Rightarrow> Command option" where
  "find_command self name' = find_loop (commands self) name'"

text \<open>
  \<open>register(**attributes)(func)\<close>: the decorator builds the closure \<open>wrapper\<close>, which
  has no documentation of its own, copies the documentation of \<open>func\<close> onto it, and
  adds the Command made of the name of \<open>func\<close>, the wrapper and the attributes.
\<close>

definition register ::
  "Env \<Rightarrow> CommandsHandler \<Rightarrow> AttributesKwargs \<Rightarrow> pyfunc \<Rightarrow> Command \<times> CommandsHandler"
where
  "register env self attributes' func =
     (let wrapper = PyFunc (str ''wrapper'') None (Some func);
          wrapper = PyFunc (fn_name wrapper) (fn_doc func) (fn_closure wrapper)
      in add self (Command_init (fn_name func) wrapper (Attributes_init env attributes')))"

text \<open>
  \<open>_get_command_and_postcommand\<close>: \<open>None\<close> for the pair \<open>(None, None)\<close>. A Command
  object is true in a condition.
\<close>

definition get_command_and_postcommand ::
  "Env \<Rightarrow> CommandsHandler \<Rightarrow> Client \<Rightarrow> Message \<Rightarrow> (Command \<times> pystr list) option"
where
  "get_command_and_postcommand env self client message =
     (let split = str_split (content message)
      in if length split = 0 then None
         else if is_private (channel message) then
           (case find_command self (split ! 0) of
              Some command \<Rightarrow> Some (command, slice 1 (length split) split)
            | None \<Rightarrow> None)
         else
           (let commandTrigger = get_server_trigger env (server message)
            in if length split \<le> 1 then None
               else if split ! 0 = commandTrigger \<or> user client \<in> set (mentions message) then
                 (if length split > 1 then
                    (case find_command self (split ! 1) of
                       Some command \<Rightarrow> Some (command, slice 2 (length split) split)
                     | None \<Rightarrow> None)
                  else None)
               else None))"

text \<open>
  \<open>try_execute\<close>: the events, and the exception that left the method, if any. The
  \<open>except Exception\<close> clause covers the call of \<open>validate_context\<close> only.
\<close>

definition try_execute ::
  "Env \<Rightarrow> CommandsHandler \<Rightarrow> Client \<Rightarrow> Message \<Rightarrow> event list \<times> exn option"
where
  "try_execute env self client message =
     (case get_command_and_postcommand env self client message of
        None \<Rightarrow> ([], None)
      | Some (command, postCommand) \<Rightarrow>
          (case validate_context env command client message postCommand of
             Inl e \<Rightarrow> ([Print_exception (content message) e], None)
           | Inr (validated, exc) \<Rightarrow>
               (case exc of
                  Some err \<Rightarrow> ([Send_message (channel message) err], None)
                | None \<Rightarrow>
                    if validated then
                      (case execute env command client message postCommand of
                         (evs, Some e) \<Rightarrow> (evs, Some e)
                       | (evs, None) \<Rightarrow>
                           (evs @
                            [Print_validated (name command)
                               (if length postCommand = 0 then []
                                else str '' '' @ join (str '' '') postCommand)
                               (if is_private (channel message) then str ''PM''
                                else server_name (server message) @ str ''/#''
                                     @ channel_name (channel message))],
                            None))
                    else ([], None))))"

subsection \<open>AuthorizedCommandsWrapper\<close>

text \<open>
  The wrapper holds an iterator over the module's registry \<open>commands\<close>, passed here
  as an argument and modelled as the list of the commands not yet taken from it. \<open>anext_loop\<close> is \<open>__anext__\<close> on that list: the value
  returned or the exception raised, and the commands left.
\<close>

record AuthorizedCommandsWrapper =
  w_client :: Client
  w_message :: Message
  w_commands :: "Command list"

definition AuthorizedCommandsWrapper_init ::
  "CommandsHandler \<Rightarrow> Client \<Rightarrow> Message \<Rightarrow> AuthorizedCommandsWrapper"
where
  "AuthorizedCommandsWrapper_init registry client message =
     \<lparr>w_client = client, w_message = message, w_commands = commands registry\<rparr>"

fun is_MissingParameters :: "error option \<Rightarrow> bool" where
  "is_MissingParameters (Some (MissingParameters req given)) = True"
| "is_MissingParameters _ = False"

fun anext_loop ::
  "Env \<Rightarrow> Client \<Rightarrow> Message \<Rightarrow> Command list \<Rightarrow> (exn + pystr) \<times> Command list"
where
  "anext_loop env client message [] = (Inl StopAsyncIteration, [])"
| "anext_loop env client message (command # rest) =
     (case validate_context env command client message [] of
        Inl e \<Rightarrow> (Inl e, rest)
      | Inr (validated, exc) \<Rightarrow>
          if validated \<or> is_MissingParameters exc then (simple_print command, rest)
          else anext_loop env client message rest)"

definition anext :: "Env \<Rightarrow> AuthorizedCommandsWrapper \<Rightarrow> (exn + pystr) \<times> AuthorizedCommandsWrapper"
where
  "anext env self =
     (case anext_loop env (w_client self) (w_message self) (w_commands self) of
        (r, rest) \<Rightarrow> (r, self\<lparr>w_commands := rest\<rparr>))"

lemma anext_loop_shorter:
  "anext_loop env client message cs = (Inr s, rest) \<Longrightarrow> length rest < length cs"
proof (induction cs)
  case Nil
  then show ?case by simp
next
  case (Cons c cs)
  then show ?case
    by (cases "simple_print c") (auto split: sum.splits prod.splits if_splits)
qed

lemma anext_shorter:
  "anext env it = (Inr s, it') \<Longrightarrow> length (w_commands it') < length (w_commands it)"
  by (auto simp: anext_def split: prod.splits dest: anext_loop_shorter)

text \<open>
  \<open>async for s in AuthorizedCommandsWrapper(...)\<close>: the loop calls \<open>__anext__\<close>
  until it raises; \<open>StopAsyncIteration\<close> ends the loop, any other exception leaves
  it. The result is the list of the values yielded and the exception that left the loop,
  if any.
\<close>

function async_for :: "Env \<Rightarrow> AuthorizedCommandsWrapper \<Rightarrow> pystr list \<times> exn option" where
  "async_for env it =
     (case anext env it of
        (Inl e, it') \<Rightarrow> if e = StopAsyncIteration then ([], None) else ([], Some e)
      | (Inr s, it') \<Rightarrow> (case async_for env it' of (ys, r) \<Rightarrow> (s # ys, r)))"
  by pat_completeness auto
termination
  by (relation "measure (\<lambda>(env, it). length (w_commands it))")
     (auto dest: anext_shorter [OF sym])

subsection \<open>The validation pipeline, as the spec words it\<close>

text \<open>
  The spec describes \<open>validate_context\<close> as four checks run in a fixed order, the
  first failure ending the run. Each check passes, fails with an error value, or raises.
  These definitions follow the spec's words; \<open>validate_context\<close> above follows the
  code.
\<close>

datatype outcome = Pass | Fail error | Raise exn

definition check_permission :: "Env \<Rightarrow> Command \<Rightarrow> Message \<Rightarrow> outcome" where
  "check_permission env self message =
     (if get_permissions env (author message) (channel message) < minPermissions (attributes self)
      then Fail InsufficientPrivileges else Pass)"

definition check_channel :: "Env \<Rightarrow> Command \<Rightarrow> Message \<Rightarrow> outcome" where
  "check_channel env self message =
     (if get_channel_type env (channel message) AND channelRestrictions (attributes self) = 0
      then Fail WrongChannel else Pass)"

definition check_tournament_state :: "Env \<Rightarrow> Command \<Rightarrow> Tournament \<Rightarrow> nat option \<Rightarrow> outcome" where
  "check_tournament_state env self db_t acc =
     (case (acc, tournamentState (attributes self)) of
        (Some a, Some st) \<Rightarrow>
          (case validate_tournament_state env a (challonge_id db_t) st of
             Inl e \<Rightarrow> Raise e
           | Inr ok \<Rightarrow> if ok then Pass else Fail BadTournamentState)
      | _ \<Rightarrow> Pass)"

definition check_account :: "Env \<Rightarrow> Command \<Rightarrow> Message \<Rightarrow> outcome" where
  "check_account env self message =
     (case challongeAccess (attributes self) of
        NotRequired \<Rightarrow> Pass
      | RequiredForAuthor \<Rightarrow>
          (case snd (get_account env (author message)) of
             Some exc \<Rightarrow> Fail (AccountError exc)
           | None \<Rightarrow> Pass)
      | RequiredForHost \<Rightarrow>
          (let db_t = get_tournament env (channel message);
               r = get_account env (host_id db_t)
           in case snd r of
                Some exc \<Rightarrow> Fail (AccountError exc)
              | None \<Rightarrow> check_tournament_state env self db_t (fst r)))"

definition check_arguments :: "Command \<Rightarrow> pystr list \<Rightarrow> outcome" where
  "check_arguments self postCommand =
     (if length postCommand < length (reqParams self)
      then Fail (MissingParameters (length (reqParams self)) (length postCommand))
      else Pass)"

fun first_failure :: "outcome list \<Rightarrow> exn + (bool \<times> error option)" where
  "first_failure [] = Inr (True, None)"
| "first_failure (Pass # checks) = first_failure checks"
| "first_failure (Fail e # checks) = Inr (False, Some e)"
| "first_failure (Raise x # checks) = Inl x"

subsection \<open>The listing, as the spec words it\<close>

text \<open>
  A command is listed when validation with an empty argument list returns success or a
  \<open>MissingParameters\<close> error. Validation returns when it does not raise, and a
  description renders when \<open>simple_print\<close> does not raise; \<open>description\<close> is then
  the string it returns.
\<close>

definition listed :: "Env \<Rightarrow> Client \<Rightarrow> Message \<Rightarrow> Command \<Rightarrow> bool" where
  "listed env client message command =
     (case validate_context env command client message [] of
        Inl e \<Rightarrow> False
      | Inr (validated, exc) \<Rightarrow> validated \<or> is_MissingParameters exc)"

definition validation_returns :: "Env \<Rightarrow> Client \<Rightarrow> Message \<Rightarrow> Command \<Rightarrow> bool" where
  "validation_returns env client message command =
     (case validate_context env command client message [] of Inl e \<Rightarrow> False | Inr r \<Rightarrow> True)"

definition description_renders :: "Command \<Rightarrow> bool" where
  "description_renders command = (case simple_print command of Inl e \<Rightarrow> False | Inr s \<Rightarrow> True)"

definition description :: "Command \<Rightarrow> pystr" where
  "description command = (case simple_print command of Inl e \<Rightarrow> [] | Inr s \<Rightarrow> s)"

section \<open>Example data\<close>

text \<open>
  A small world in which to run the functions: user 7 is a moderator with a tournament
  account and user 8 an ordinary user with none; the tournament-state validator raises
  for state 0 and accepts state 1; the server's trigger is \<open>!bot\<close>.
\<close>

definition example_env :: Env where
  "example_env =
     \<lparr>Permissions_User = 0, ChannelType_Other = 1,
      get_permissions = (\<lambda>u c. if u = 7 then 2 else 0),
      get_channel_type = (\<lambda>c. if is_private c then 2 else 1),
      get_account = (\<lambda>u. if u = 7 then (Some 70, None) else (None, Some UserNotFound)),
      validate_tournament_state = (\<lambda>a t st. if st = 0 then Inl (Raised 0) else Inr (st = 1)),
      get_tournament = (\<lambda>c. \<lparr>host_id = 7, challonge_id = 5, role_id = 3, channel_id = chan_id c\<rparr>),
      get_server_trigger = (\<lambda>s. str ''!bot''),
      get_user_name = (\<lambda>u. str ''player''),
      call = (\<lambda>f c m k. None)\<rparr>"

definition example_channel :: Channel where
  "example_channel = \<lparr>chan_id = 1, is_private = False, channel_name = str ''general''\<rparr>"

definition example_server :: Server where
  "example_server = \<lparr>server_id = 1, server_name = str ''guild'', roles = [3], channels = [1]\<rparr>"

definition example_message :: "pystr \<Rightarrow> Message" where
  "example_message text =
     \<lparr>content = text, author = 8, channel = example_channel, server = example_server,
      mentions = []\<rparr>"

definition example_client :: Client where
  "example_client = \<lparr>user = 99\<rparr>"

definition example_attributes :: Attributes where
  "example_attributes =
     \<lparr>minPermissions = 0, channelRestrictions = 1, challongeAccess = NotRequired,
      tournamentState = None\<rparr>"

definition example_command :: Command where
  "example_command =
     \<lparr>name = str ''join'', cb = PyFunc (str ''wrapper'') (Some (str ''Join a tournament'')) None,
      attributes = example_attributes, aliases = [],
      reqParams = [str ''a'', str ''b''], optParams = [str ''c''], helpers = []\<rparr>"

text \<open>
  A registry of two commands: \<open>bar\<close>, registered first, lists \<open>foo\<close> among its
  aliases; \<open>foo\<close> is registered second.
\<close>

definition example_bar :: Command where
  "example_bar =
     \<lparr>name = str ''bar'', cb = PyFunc (str ''wrapper'') None None,
      attributes = example_attributes, aliases = [str ''foo''],
      reqParams = [], optParams = [], helpers = []\<rparr>"

definition example_foo :: Command where
  "example_foo =
     \<lparr>name = str ''foo'', cb = PyFunc (str ''wrapper'') None None,
      attributes = example_attributes, aliases = [],
      reqParams = [], optParams = [], helpers = []\<rparr>"

definition example_registry :: CommandsHandler where
  "example_registry =
     snd (add (snd (add CommandsHandler_init example_bar)) example_foo)"

text \<open>
  Three more commands: \<open>kick\<close> needs a permission level that user 8 lacks, and
  \<open>start\<close> needs the host's account and tournament state 0, for which the validator
  raises. One registry holds \<open>start\<close> and one does not.
\<close>

definition example_kick :: Command where
  "example_kick =
     \<lparr>name = str ''kick'', cb = PyFunc (str ''wrapper'') (Some (str ''Kick a player'')) None,
      attributes = example_attributes\<lparr>minPermissions := 1\<rparr>, aliases = [],
      reqParams = [], optParams = [], helpers = []\<rparr>"

definition example_start :: Command where
  "example_start =
     \<lparr>name = str ''start'', cb = PyFunc (str ''wrapper'') (Some (str ''Start'')) None,
      attributes = example_attributes\<lparr>challongeAccess := RequiredForHost, tournamentState := Some 0\<rparr>,
      aliases = [], reqParams = [], optParams = [], helpers = []\<rparr>"

definition example_handler :: CommandsHandler where
  "example_handler = \<lparr>commands = [example_kick, example_command, example_foo]\<rparr>"

definition example_handler_raising :: CommandsHandler where
  "example_handler_raising =
     \<lparr>commands = [example_kick, example_command, example_start, example_foo]\<rparr>"

text \<open>
  A store of two Command objects, and a registration that gives none of the keyword
  arguments.
\<close>

definition example_store :: store where
  "example_store = Map.empty(0 \<mapsto> example_command, 1 \<mapsto> example_foo)"

definition example_kwargs :: AttributesKwargs where
  "example_kwargs =
     \<lparr>kw_minPermissions = None, kw_channelRestrictions = None, kw_challongeAccess = None,
      kw_tournamentState = None\<rparr>"

text \<open>The definitions of the example data, and the fields of an example message.\<close>

lemmas example_defs =
  example_env_def example_channel_def example_server_def example_message_def
  example_client_def example_attributes_def example_command_def example_kick_def
  example_start_def example_foo_def example_bar_def

lemma example_message_sel:
  "content (example_message text) = text"
  "author (example_message text) = 8"
  "channel (example_message text) = example_channel"
  "server (example_message text) = example_server"
  "mentions (example_message text) = []"
  by (simp_all add: example_message_def)

section \<open>Properties of the string primitives\<close>

lemma concat_splitlines_aux: "concat (splitlines_aux True cur s) = cur @ s"
  by (induction "True" cur s rule: splitlines_aux.induct) (auto split: list.splits)

lemma concat_splitlines: "concat (splitlines True s) = s"
  by (simp add: splitlines_def concat_splitlines_aux)

lemma splitlines_aux_Nil_iff: "splitlines_aux k cur s = [] \<longleftrightarrow> cur = [] \<and> s = []"
  by (induction k cur s rule: splitlines_aux.induct) (auto split: list.splits)

lemma offsets_from_snoc:
  "set (offsets_from a (xs @ [x])) =
     insert (a + length (concat xs) + length x) (set (offsets_from a xs))"
  by (induction xs arbitrary: a) (auto simp: add.assoc)

lemma offsets_from_prefix:
  "a + length (concat pre) \<in> set (offsets_from a (pre @ rest))"
proof (induction pre arbitrary: a)
  case Nil
  show ?case by (cases rest) simp_all
next
  case (Cons x pre)
  have "(a + length x) + length (concat pre) \<in> set (offsets_from (a + length x) (pre @ rest))"
    by (rule Cons.IH)
  then show ?case by (simp add: add.assoc)
qed

section \<open>Properties of paginate\<close>

text \<open>
  The loop invariant: the pages closed so far are the text up to \<open>page_index\<close>, and
  \<open>page_index + len_count\<close> is the offset at which the line now examined begins.
\<close>

lemma paginate_loop_concat:
  assumes "concat (pre @ map snd es) = dump"
    and "es = enumerate (length pre) (map snd es)"
    and "n = length pre + length es"
    and "concat paginated = take page_index dump"
    and "page_index + len_count = length (concat pre)"
    and "es \<noteq> []"
  shows "concat (paginate_loop dump m n es page_index len_count paginated) = dump"
  using assms
proof (induction es arbitrary: pre page_index len_count paginated)
  case Nil
  then show ?case by simp
next
  case (Cons e es)
  obtain i line where e: "e = (i, line)" by (cases e)
  from Cons.prems(2) e have i: "i = length pre"
    and es: "es = enumerate (length (pre @ [line])) (map snd es)"
    by simp_all
  have dump: "concat ((pre @ [line]) @ map snd es) = dump"
    using Cons.prems(1) e by simp
  have n: "n = length (pre @ [line]) + length es"
    using Cons.prems(3) by simp
  show ?case
  proof (cases "es = []")
    case True
    then have "int i = int n - 1" using i Cons.prems(3) by simp
    then show ?thesis
      using True e Cons.prems(4) by (simp add: slice_from_def)
  next
    case False
    then have ni: "int i \<noteq> int n - 1" using i Cons.prems(3) by (cases es) auto
    show ?thesis
    proof (cases "int len_count + int (length line) \<ge> m")
      case True
      have c: "concat (paginated @ [slice page_index (page_index + len_count) dump])
                 = take (page_index + len_count) dump"
        using Cons.prems(4) by (simp add: slice_def take_add)
      have "concat (paginate_loop dump m n es (page_index + len_count) (length line)
                      (paginated @ [slice page_index (page_index + len_count) dump])) = dump"
        by (rule Cons.IH [OF dump es n c _ False]) (use Cons.prems(5) in simp)
      then show ?thesis using e ni True by simp
    next
      case False2: False
      have "concat (paginate_loop dump m n es page_index (len_count + length line) paginated) = dump"
        by (rule Cons.IH [OF dump es n Cons.prems(4) _ False]) (use Cons.prems(5) in simp)
      then show ?thesis using e ni False2 by simp
    qed
  qed
qed

lemma paginate_loop_offsets:
  assumes "concat (pre @ map snd es) = dump"
    and "es = enumerate (length pre) (map snd es)"
    and "n = length pre + length es"
    and "concat paginated = take page_index dump"
    and "page_index + len_count = length (concat pre)"
    and "set (offsets paginated) \<subseteq> set (offsets (pre @ map snd es))"
  shows "set (offsets (paginate_loop dump m n es page_index len_count paginated))
           \<subseteq> set (offsets (pre @ map snd es))"
  using assms
proof (induction es arbitrary: pre page_index len_count paginated)
  case Nil
  then show ?case by simp
next
  case (Cons e es)
  obtain i line where e: "e = (i, line)" by (cases e)
  let ?L = "set (offsets (pre @ map snd (e # es)))"
  from Cons.prems(2) e have i: "i = length pre"
    and es: "es = enumerate (length (pre @ [line])) (map snd es)"
    by simp_all
  have dump: "concat ((pre @ [line]) @ map snd es) = dump"
    using Cons.prems(1) e by simp
  have n: "n = length (pre @ [line]) + length es"
    using Cons.prems(3) by simp
  have L: "set (offsets ((pre @ [line]) @ map snd es)) = ?L"
    using e by simp
  have le: "page_index + len_count \<le> length dump"
    using Cons.prems(5) arg_cong [OF dump, of length] by simp
  have len: "length (concat paginated) = page_index"
    using Cons.prems(4) le by simp
  show ?case
  proof (cases "es = []")
    case True
    then have last: "int i = int n - 1" using i Cons.prems(3) by simp
    have "length (concat (pre @ map snd (e # es))) \<in> ?L"
      using offsets_from_prefix [of 0 "pre @ map snd (e # es)" "[]"]
      by (simp add: offsets_def)
    then have "length dump \<in> ?L"
      by (simp only: Cons.prems(1))
    then have "set (offsets (paginated @ [slice_from page_index dump])) \<subseteq> ?L"
      using Cons.prems(6) len le
      by (simp add: offsets_def offsets_from_snoc slice_from_def)
    then show ?thesis using True e last by simp
  next
    case False
    then have ni: "int i \<noteq> int n - 1" using i Cons.prems(3) by (cases es) auto
    show ?thesis
    proof (cases "int len_count + int (length line) \<ge> m")
      case True
      have c: "concat (paginated @ [slice page_index (page_index + len_count) dump])
                 = take (page_index + len_count) dump"
        using Cons.prems(4) by (simp add: slice_def take_add)
      have "page_index + len_count \<in> ?L"
        using offsets_from_prefix [of 0 pre "map snd (e # es)"] Cons.prems(5)
        by (simp add: offsets_def)
      then have o: "set (offsets (paginated @ [slice page_index (page_index + len_count) dump]))
                 \<subseteq> set (offsets ((pre @ [line]) @ map snd es))"
        using Cons.prems(6) len le unfolding L
        by (simp add: offsets_def offsets_from_snoc slice_def)
      have "set (offsets (paginate_loop dump m n es (page_index + len_count) (length line)
                      (paginated @ [slice page_index (page_index + len_count) dump])))
              \<subseteq> set (offsets ((pre @ [line]) @ map snd es))"
        by (rule Cons.IH [OF dump es n c _ o]) (use Cons.prems(5) in simp)
      then show ?thesis unfolding L using e ni True by simp
    next
      case False2: False
      have o: "set (offsets paginated) \<subseteq> set (offsets ((pre @ [line]) @ map snd es))"
        using Cons.prems(6) unfolding L .
      have "set (offsets (paginate_loop dump m n es page_index (len_count + length line) paginated))
              \<subseteq> set (offsets ((pre @ [line]) @ map snd es))"
        by (rule Cons.IH [OF dump es n Cons.prems(4) _ o]) (use Cons.prems(5) in simp)
      then show ?thesis unfolding L using e ni False2 by simp
    qed
  qed
qed

text \<open>
  C7. For every text and every \<open>max_per_page\<close> (positive or not), the pages returned by
  \<open>paginate\<close>, concatenated in order, are the text; and every offset at which a page
  begins or ends is an offset at which a line of \<open>text.splitlines(True)\<close> begins or
  ends, so that no page boundary falls inside a line.
\<close>

theorem paginate_reconstitutes:
  "concat (paginate text max_per_page) = text \<and>
   set (offsets (paginate text max_per_page)) \<subseteq> set (offsets (splitlines True text))"
proof (cases "int (length text) < max_per_page")
  case True
  have "length text \<in> set (offsets (splitlines True text))"
    using offsets_from_prefix [of 0 "splitlines True text" "[]"]
    by (simp add: offsets_def concat_splitlines)
  moreover have "0 \<in> set (offsets (splitlines True text))"
    using offsets_from_prefix [of 0 "[]" "splitlines True text"]
    by (simp add: offsets_def)
  ultimately show ?thesis using True by (simp add: paginate_def offsets_def)
next
  case False
  let ?split = "splitlines True text"
  let ?es = "enumerate 0 ?split"
  have ms: "map snd ?es = ?split" by (simp add: enumerate_eq_zip)
  have d: "concat ([] @ map snd ?es) = text" by (simp add: ms concat_splitlines)
  have e: "?es = enumerate (length ([] :: pystr list)) (map snd ?es)" by (simp add: ms)
  have n: "length ?split = length ([] :: pystr list) + length ?es" by simp
  have p: "concat ([] :: pystr list) = take 0 text" by simp
  have z: "(0::nat) + 0 = length (concat ([] :: pystr list))" by simp
  have o: "set (offsets ([] :: pystr list)) \<subseteq> set (offsets ([] @ map snd ?es))"
    using offsets_from_prefix [of 0 "[]" "map snd ?es"] by (simp add: offsets_def)
  have sub: "set (offsets (paginate_loop text max_per_page (length ?split) ?es 0 0 []))
               \<subseteq> set (offsets ?split)"
    using paginate_loop_offsets [OF d e n p z o] by (simp add: ms)
  have cat: "concat (paginate_loop text max_per_page (length ?split) ?es 0 0 []) = text"
  proof (cases "text = []")
    case True
    then show ?thesis by (simp add: splitlines_def)
  next
    case False
    then have "?split \<noteq> []"
      by (simp add: splitlines_def splitlines_aux_Nil_iff)
    then have "?es \<noteq> []"
      by (cases ?split) simp_all
    from paginate_loop_concat [OF d e n p z this] show ?thesis .
  qed
  show ?thesis using False sub cat by (simp add: paginate_def Let_def)
qed

section \<open>Properties of get_user_id_from_mention\<close>

declare findall_mention.simps [simp del]

lemma findall_mention_Nil: "findall_mention [] = []"
  by (simp add: findall_mention.simps)

lemma findall_mention_None:
  "match_mention (c # cs) = None \<Longrightarrow> findall_mention (c # cs) = findall_mention cs"
  by (simp add: findall_mention.simps [of "c # cs"])

lemma findall_mention_Some:
  "match_mention (c # cs) = Some (g, rest) \<Longrightarrow>
     findall_mention (c # cs) = g # findall_mention rest"
  by (simp add: findall_mention.simps [of "c # cs"])

lemma mention_at_match:
  "mention_at token i ds \<longleftrightarrow>
     i < length token \<and> (\<exists>rest. match_mention (drop i token) = Some (ds, rest))"
  by (auto simp: mention_at_def match_mention_iff str_def)

lemma mention_at_functional:
  "mention_at token i ds \<Longrightarrow> mention_at token i es \<Longrightarrow> ds = es"
  by (auto simp: mention_at_match)

lemma mention_at_Cons:
  "mention_at (c # cs) i ds \<longleftrightarrow>
     (i = 0 \<and> (\<exists>rest. match_mention (c # cs) = Some (ds, rest))) \<or>
     (\<exists>j. i = Suc j \<and> mention_at cs j ds)"
  by (cases i) (auto simp: mention_at_match)

lemma mention_at_append:
  "mention_at r j ds \<Longrightarrow> mention_at (m @ r) (length m + j) ds"
  by (simp add: mention_at_match)

lemma occs_finite: "finite {i. \<exists>ds. mention_at token i ds}"
  by (rule finite_subset [of _ "{..<length token}"]) (auto simp: mention_at_match)

lemma occs_Cons:
  "{i. \<exists>ds. mention_at (c # cs) i ds} =
     (if match_mention (c # cs) = None then {} else {0}) \<union> Suc ` {i. \<exists>ds. mention_at cs i ds}"
  by (auto simp: mention_at_Cons)

lemma card_occs_Cons:
  "card {i. \<exists>ds. mention_at (c # cs) i ds} =
     (if match_mention (c # cs) = None then 0 else 1) + card {i. \<exists>ds. mention_at cs i ds}"
proof -
  have f: "finite (Suc ` {i. \<exists>ds. mention_at cs i ds})"
    using occs_finite by (rule finite_imageI)
  have c: "card (Suc ` {i. \<exists>ds. mention_at cs i ds}) = card {i. \<exists>ds. mention_at cs i ds}"
    by (rule card_image) simp
  show ?thesis
    unfolding occs_Cons using f c by (auto simp: card_insert_if)
qed

lemma card_occs_skip:
  "60 \<notin> set m \<Longrightarrow>
     card {i. \<exists>ds. mention_at (m @ r) i ds} = card {i. \<exists>ds. mention_at r i ds}"
proof (induction m)
  case Nil
  show ?case by simp
next
  case (Cons x m)
  then have "match_mention (x # m @ r) = None"
    using match_mention_head [of x "m @ r"] by (cases "match_mention (x # m @ r)") auto
  with Cons show ?case by (simp add: card_occs_Cons)
qed

lemma match_mention_split:
  assumes "match_mention (c # cs) = Some (g, rest)"
  obtains m where "cs = m @ rest" and "60 \<notin> set m"
proof -
  from assms obtain bang where g: "list_all is_digit g"
    and bang: "bang = [] \<or> bang = [33]"
    and s: "c # cs = [60, 64] @ bang @ g @ [62] @ rest"
    by (auto simp: match_mention_iff)
  have "60 \<notin> set g" using g by (auto simp: list_all_iff is_digit_def)
  then have "60 \<notin> set ([64] @ bang @ g @ [62])" using bang by auto
  moreover have "cs = ([64] @ bang @ g @ [62]) @ rest" using s by simp
  ultimately show ?thesis by (rule that [rotated])
qed

lemma length_findall_mention:
  "length (findall_mention s) = card {i. \<exists>ds. mention_at s i ds}"
proof (induction s rule: length_induct)
  case (1 s)
  show ?case
  proof (cases s)
    case Nil
    then show ?thesis by (simp add: findall_mention_Nil mention_at_match)
  next
    case (Cons c cs)
    show ?thesis
    proof (cases "match_mention (c # cs)")
      case None
      moreover have "length (findall_mention cs) = card {i. \<exists>ds. mention_at cs i ds}"
        using 1 Cons by simp
      ultimately show ?thesis
        unfolding Cons by (simp add: findall_mention_None card_occs_Cons)
    next
      case (Some x)
      obtain g rest where x: "x = (g, rest)" by (cases x)
      from Some x obtain m where m: "cs = m @ rest" "60 \<notin> set m"
        by (auto elim: match_mention_split)
      have "length (findall_mention rest) = card {i. \<exists>ds. mention_at rest i ds}"
        using 1 Cons m by simp
      then show ?thesis
        unfolding Cons using Some x m
        by (simp add: findall_mention_Some card_occs_Cons card_occs_skip)
    qed
  qed
qed

lemma set_findall_mention:
  "g \<in> set (findall_mention s) \<Longrightarrow> \<exists>i. mention_at s i g"
proof (induction s rule: length_induct)
  case (1 s)
  show ?case
  proof (cases s)
    case Nil
    with 1 show ?thesis by (simp add: findall_mention_Nil)
  next
    case (Cons c cs)
    show ?thesis
    proof (cases "match_mention (c # cs)")
      case None
      then have "g \<in> set (findall_mention cs)"
        using 1(2) Cons by (simp add: findall_mention_None)
      then obtain j where "mention_at cs j g" using 1(1) Cons by auto
      then have "mention_at (c # cs) (Suc j) g" by (simp add: mention_at_Cons)
      then show ?thesis unfolding Cons ..
    next
      case (Some x)
      obtain g' rest where x: "x = (g', rest)" by (cases x)
      from Some x obtain m where m: "cs = m @ rest" "60 \<notin> set m"
        by (auto elim: match_mention_split)
      from 1(2) Cons Some x have "g = g' \<or> g \<in> set (findall_mention rest)"
        by (simp add: findall_mention_Some)
      then show ?thesis
      proof
        assume "g = g'"
        then have "mention_at (c # cs) 0 g" using Some x by (simp add: mention_at_Cons)
        then show ?thesis unfolding Cons ..
      next
        assume r: "g \<in> set (findall_mention rest)"
        have lt: "length rest < length s" using Cons m by simp
        from 1(1) [rule_format, OF lt r] obtain j where "mention_at rest j g" ..
        then have "mention_at ((c # m) @ rest) (length (c # m) + j) g"
          by (rule mention_at_append)
        then show ?thesis unfolding Cons m by auto
      qed
    qed
  qed
qed

text \<open>
  C8. When the token holds exactly one occurrence of \<open><@DIGITS>\<close> or \<open><@!DIGITS>\<close>,
  \<open>get_user_id_from_mention\<close> returns its digits as a string; when it holds none, or
  occurrences at two different positions, it returns the integer \<open>0\<close>.
\<close>

theorem get_user_id_from_mention_spec:
  "(mention_at token i ds \<and> (\<forall>j es. mention_at token j es \<longrightarrow> j = i)
      \<longrightarrow> get_user_id_from_mention token = PyStr ds) \<and>
   ((\<forall>j es. \<not> mention_at token j es) \<longrightarrow> get_user_id_from_mention token = PyInt 0) \<and>
   (mention_at token i ds \<and> mention_at token j es \<and> i \<noteq> j
      \<longrightarrow> get_user_id_from_mention token = PyInt 0)"
proof (intro conjI impI)
  assume a: "mention_at token i ds \<and> (\<forall>j es. mention_at token j es \<longrightarrow> j = i)"
  then have "{k. \<exists>es. mention_at token k es} = {i}" by auto
  then have len: "length (findall_mention token) = 1"
    by (simp add: length_findall_mention)
  then obtain g where g: "findall_mention token = [g]"
    by (cases "findall_mention token") auto
  then obtain k where "mention_at token k g"
    using set_findall_mention [of g token] by auto
  with a have "g = ds" by (auto dest: mention_at_functional)
  with g show "get_user_id_from_mention token = PyStr ds"
    by (simp add: get_user_id_from_mention_def)
next
  assume "\<forall>j es. \<not> mention_at token j es"
  then have "{k. \<exists>es. mention_at token k es} = {}" by auto
  then show "get_user_id_from_mention token = PyInt 0"
    by (simp add: get_user_id_from_mention_def length_findall_mention)
next
  assume a: "mention_at token i ds \<and> mention_at token j es \<and> i \<noteq> j"
  then have "{i, j} \<subseteq> {k. \<exists>es. mention_at token k es}" by auto
  then have "card {i, j} \<le> card {k. \<exists>es. mention_at token k es}"
    using occs_finite by (rule card_mono [rotated])
  with a have "2 \<le> length (findall_mention token)"
    by (simp add: length_findall_mention)
  then show "get_user_id_from_mention token = PyInt 0"
    by (simp add: get_user_id_from_mention_def)
qed


lemma mention_at_list: "mention_at token j es \<longleftrightarrow> (j, es) \<in> set (mention_list token)"
proof -
  have "(j, es) \<in> set (mention_list token) \<longleftrightarrow>
          j < length token \<and> (\<exists>rest. Some (es, rest) = match_mention (drop j token))"
    by (auto simp: mention_list_def split: option.splits)
  then show ?thesis
    unfolding mention_at_match by (simp add: eq_commute)
qed

lemma mention_list_example1: "mention_list (str ''<@123456>'') = [(0, str ''123456'')]"
  by (simp add: mention_list_def str_def match_mention_def optional_bang_def is_digit_def)

lemma mention_list_example2: "mention_list (str ''<@!123456>'') = [(0, str ''123456'')]"
  by (simp add: mention_list_def str_def match_mention_def optional_bang_def is_digit_def)

lemma mention_list_example3: "mention_list (str ''no mention here'') = []"
  by (simp add: mention_list_def str_def match_mention_def optional_bang_def is_digit_def)

lemma mention_list_example4: "mention_list (str ''<@1> <@2>'') = [(0, str ''1''), (5, str ''2'')]"
  by (simp add: mention_list_def str_def match_mention_def optional_bang_def is_digit_def)

theorem get_user_id_from_mention_witness:
  "mention_at (str ''<@123456>'') 0 (str ''123456'') \<and>
   \<not> (\<exists>j es. mention_at (str ''<@123456>'') j es \<and> j \<noteq> 0) \<and>
   get_user_id_from_mention (str ''<@123456>'') = PyStr (str ''123456'') \<and>
   get_user_id_from_mention (str ''<@!123456>'') = PyStr (str ''123456'') \<and>
   \<not> (\<exists>j es. mention_at (str ''no mention here'') j es) \<and>
   get_user_id_from_mention (str ''no mention here'') = PyInt 0 \<and>
   mention_at (str ''<@1> <@2>'') 0 (str ''1'') \<and>
   mention_at (str ''<@1> <@2>'') 5 (str ''2'') \<and>
   get_user_id_from_mention (str ''<@1> <@2>'') = PyInt 0"
  using get_user_id_from_mention_spec [of "str ''<@123456>''" 0 "str ''123456''"]
    get_user_id_from_mention_spec [of "str ''<@!123456>''" 0 "str ''123456''"]
    get_user_id_from_mention_spec [of "str ''no mention here''"]
    get_user_id_from_mention_spec [of "str ''<@1> <@2>''" 0 "str ''1''" 5 "str ''2''"]
  by (simp add: mention_at_list mention_list_example1 mention_list_example2
      mention_list_example3 mention_list_example4)

section \<open>Properties of validate_context\<close>

lemma validate_context_first_failure:
  "validate_context env self client message postCommand =
     first_failure [check_permission env self message, check_channel env self message,
                    check_account env self message, check_arguments self postCommand]"
  by (cases "challongeAccess (attributes self)")
     (auto simp: validate_context_def check_permission_def check_channel_def check_account_def
        check_tournament_state_def check_arguments_def Let_def
        split: prod.splits option.splits sum.splits)

text \<open>
  C1. \<open>validate_context\<close> is the run of the permission check, the channel-type
  check, the tournament-account check and the argument-count check in this order,
  ended by the first check that does not pass. The account check looks an account up
  only under RequiredForAuthor and RequiredForHost, and asks for the tournament state
  only under RequiredForHost, with an account present and a tournament state set. When
  the method returns, it returns (True, no error) or (False, an error), never
  (False, no error) and never (True, an error). It raises only when the tournament-state
  validator raises after the permission and channel checks have passed.
\<close>

theorem validate_context_order:
  "validate_context env self client message postCommand =
     first_failure [check_permission env self message, check_channel env self message,
                    check_account env self message, check_arguments self postCommand] \<and>
   (case validate_context env self client message postCommand of
      Inl x \<Rightarrow> check_permission env self message = Pass \<and> check_channel env self message = Pass \<and>
               check_account env self message = Raise x
    | Inr (validated, exc) \<Rightarrow> validated = (exc = None))"
proof -
  let ?cs = "[check_permission env self message, check_channel env self message,
              check_account env self message, check_arguments self postCommand]"
  have eq: "validate_context env self client message postCommand = first_failure ?cs"
    by (rule validate_context_first_failure)
  have "case first_failure ?cs of
      Inl x \<Rightarrow> check_permission env self message = Pass \<and> check_channel env self message = Pass \<and>
               check_account env self message = Raise x
    | Inr (validated, exc) \<Rightarrow> validated = (exc = None)"
    by (cases "check_permission env self message"; cases "check_channel env self message";
        cases "check_account env self message"; cases "check_arguments self postCommand")
       (simp_all add: check_permission_def check_channel_def check_arguments_def split: if_splits)
  with eq show ?thesis by simp
qed

section \<open>Properties of the argument count and of argument extraction\<close>

lemma map_of_dict_set: "map_of (dict_set d k v) = (map_of d)(k \<mapsto> v)"
  by (induction d k v rule: dict_set.induct) (auto simp: fun_upd_twist)

lemma fetch_required_ok:
  "i + length xs \<le> length pc \<Longrightarrow>
     \<exists>kw'. fetch_required (enumerate i xs) pc kw = Inr kw' \<and>
           map_of kw' = (map_of kw)(xs [\<mapsto>] map PyStr (drop i pc))"
proof (induction xs arbitrary: i kw)
  case Nil
  then show ?case by simp
next
  case (Cons x xs)
  then have i: "i < length pc" and le: "Suc i + length xs \<le> length pc" by simp_all
  from Cons.IH [OF le, of "dict_set kw x (PyStr (pc ! i))"]
  obtain kw' where kw': "fetch_required (enumerate (Suc i) xs) pc (dict_set kw x (PyStr (pc ! i))) = Inr kw'"
    "map_of kw' = (map_of (dict_set kw x (PyStr (pc ! i))))(xs [\<mapsto>] map PyStr (drop (Suc i) pc))"
    by blast
  have d: "drop i pc = pc ! i # drop (Suc i) pc"
    using i by (simp add: Cons_nth_drop_Suc)
  have "map_of kw' = ((map_of kw)(x \<mapsto> PyStr (pc ! i)))(xs [\<mapsto>] map PyStr (drop (Suc i) pc))"
    using kw'(2) by (simp only: map_of_dict_set)
  then show ?case
    using kw'(1) i by (simp add: d)
qed

lemma fetch_optional_map:
  "map_of (fetch_optional offset (enumerate i ys) pc kw) =
     (map_of kw)(ys [\<mapsto>] map PyStr (drop (i + offset) pc))"
proof (induction ys arbitrary: i kw)
  case Nil
  then show ?case by simp
next
  case (Cons y ys)
  show ?case
  proof (cases "i + offset < length pc")
    case True
    then have d: "drop (i + offset) pc = pc ! (i + offset) # drop (Suc i + offset) pc"
      by (simp add: Cons_nth_drop_Suc)
    have ih: "map_of (fetch_optional offset (enumerate (Suc i) ys) pc
                        (dict_set kw y (PyStr (pc ! (i + offset))))) =
              (map_of (dict_set kw y (PyStr (pc ! (i + offset)))))
                (ys [\<mapsto>] map PyStr (drop (Suc i + offset) pc))"
      by (rule Cons.IH)
    show ?thesis
      using True by (simp add: ih d map_of_dict_set)
  next
    case False
    have ih: "map_of (fetch_optional offset (enumerate (Suc i) ys) pc kw) =
              (map_of kw)(ys [\<mapsto>] map PyStr (drop (Suc i + offset) pc))"
      by (rule Cons.IH)
    show ?thesis
      using False by (simp add: ih)
  qed
qed

lemma map_upds_append_drop:
  "m(xs @ ys [\<mapsto>] zs) = (m(xs [\<mapsto>] zs))(ys [\<mapsto>] drop (length xs) zs)"
proof (induction xs arbitrary: m zs)
  case Nil
  show ?case by simp
next
  case (Cons x xs)
  show ?case
  proof (cases zs)
    case Nil
    then show ?thesis by simp
  next
    case zs: (Cons z zs')
    have "(m(x \<mapsto> z))(xs @ ys [\<mapsto>] zs') =
          ((m(x \<mapsto> z))(xs [\<mapsto>] zs'))(ys [\<mapsto>] drop (length xs) zs')"
      by (rule Cons.IH)
    then show ?thesis by (simp add: zs)
  qed
qed

lemma map_upds_nth:
  "distinct xs \<Longrightarrow> i < length xs \<Longrightarrow>
     (m(xs [\<mapsto>] ys)) (xs ! i) = (if i < length ys then Some (ys ! i) else m (xs ! i))"
proof (induction xs arbitrary: m ys i)
  case Nil
  then show ?case by simp
next
  case (Cons x xs)
  show ?case
  proof (cases ys)
    case Nil
    then show ?thesis by simp
  next
    case ys: (Cons y ys')
    show ?thesis
    proof (cases i)
      case 0
      with Cons.prems ys show ?thesis by (simp add: map_upds_apply_nontin)
    next
      case (Suc j)
      with Cons.prems have j: "j < length xs" and ne: "xs ! j \<noteq> x" and dx: "distinct xs"
        by auto
      have "((m(x \<mapsto> y))(xs [\<mapsto>] ys')) (xs ! j) =
            (if j < length ys' then Some (ys' ! j) else (m(x \<mapsto> y)) (xs ! j))"
        using dx j by (rule Cons.IH)
      then show ?thesis using ys Suc ne by simp
    qed
  qed
qed

lemma fetch_args_ok:
  assumes "length (reqParams self) \<le> length pc"
  shows "\<exists>kw. fetch_args self pc = Inr kw \<and>
           map_of kw = Map.empty(reqParams self @ optParams self [\<mapsto>] map PyStr pc)"
proof -
  from assms have "0 + length (reqParams self) \<le> length pc" by simp
  from fetch_required_ok [OF this, of "[]"]
  obtain kw' where kw': "fetch_required (enumerate 0 (reqParams self)) pc [] = Inr kw'"
    "map_of kw' = Map.empty(reqParams self [\<mapsto>] map PyStr pc)"
    by auto
  show ?thesis
    using kw' fetch_optional_map [of "length (reqParams self)" 0 "optParams self" pc kw']
    by (simp add: fetch_args_def Let_def map_upds_append_drop drop_map)
qed

lemma fetch_required_take:
  "fetch_required (enumerate i xs) (take (i + length xs + k) pc) kw =
   fetch_required (enumerate i xs) pc kw"
proof (induction xs arbitrary: i kw)
  case Nil
  show ?case by simp
next
  case (Cons x xs)
  have "fetch_required (enumerate (Suc i) xs) (take (Suc i + length xs + k) pc) kw' =
        fetch_required (enumerate (Suc i) xs) pc kw'" for kw'
    by (rule Cons.IH)
  then show ?case by (auto simp: min_def)
qed

lemma fetch_optional_take:
  "i + length ys + offset \<le> n \<Longrightarrow>
   fetch_optional offset (enumerate i ys) (take n pc) kw =
   fetch_optional offset (enumerate i ys) pc kw"
  by (induction ys arbitrary: i kw) (auto simp: min_def)

lemma fetch_args_take:
  "fetch_args self (take (length (reqParams self) + length (optParams self)) pc) =
   fetch_args self pc"
  using fetch_required_take [of 0 "reqParams self" "length (optParams self)" pc "[]"]
  by (simp add: fetch_args_def Let_def fetch_optional_take split: sum.splits)

lemma validate_context_param_check:
  assumes "validate_context env self client message pc' = Inr (True, None)"
  shows "validate_context env self client message pc =
           (if length pc < length (reqParams self)
            then Inr (False, Some (MissingParameters (length (reqParams self)) (length pc)))
            else Inr (True, None))"
  using assms
  by (cases "challongeAccess (attributes self)")
     (auto simp: validate_context_def Let_def split: prod.splits option.splits sum.splits if_splits)

lemma validate_context_no_missing:
  assumes "length (reqParams self) \<le> length pc"
  shows "validate_context env self client message pc \<noteq> Inr (v, Some (MissingParameters r g))"
  using assms
  by (cases "challongeAccess (attributes self)")
     (auto simp: validate_context_def Let_def split: prod.splits option.splits sum.splits if_splits)


text \<open>
  C3. When another token list passes validation in the same context (so that the other
  checks pass), a token list shorter than the required parameters fails with
  \<open>MissingParameters\<close> carrying the required and the given count. With at least the
  required count of tokens, validation never returns \<open>MissingParameters\<close>, and
  \<open>_fetch_args\<close> returns the dictionary that binds the required and then the optional
  names, in declared order, to the tokens 0, 1, 2, ...: a name at position \<open>i\<close> is bound
  to token \<open>i\<close> when there is one and is absent otherwise, and the tokens beyond
  required + optional change nothing.
\<close>

theorem missing_parameters_and_fetch_args:
  "(length pc < length (reqParams self) \<and>
    validate_context env self client message pc' = Inr (True, None) \<longrightarrow>
      validate_context env self client message pc =
        Inr (False, Some (MissingParameters (length (reqParams self)) (length pc)))) \<and>
   (length (reqParams self) \<le> length pc \<longrightarrow>
      (\<forall>v r g. validate_context env self client message pc
                  \<noteq> Inr (v, Some (MissingParameters r g))) \<and>
      (\<exists>kw. fetch_args self pc = Inr kw \<and>
            map_of kw = Map.empty(reqParams self @ optParams self [\<mapsto>] map PyStr pc) \<and>
            (distinct (reqParams self @ optParams self) \<longrightarrow>
               (\<forall>i < length (reqParams self @ optParams self).
                  map_of kw ((reqParams self @ optParams self) ! i) =
                    (if i < length pc then Some (PyStr (pc ! i)) else None)))) \<and>
      fetch_args self (take (length (reqParams self) + length (optParams self)) pc) =
        fetch_args self pc)"
proof (intro conjI impI)
  assume "length pc < length (reqParams self) \<and>
    validate_context env self client message pc' = Inr (True, None)"
  then show "validate_context env self client message pc =
        Inr (False, Some (MissingParameters (length (reqParams self)) (length pc)))"
    using validate_context_param_check [of env self client message pc' pc] by simp
next
  assume "length (reqParams self) \<le> length pc"
  then show "\<forall>v r g. validate_context env self client message pc
                  \<noteq> Inr (v, Some (MissingParameters r g))"
    by (simp add: validate_context_no_missing)
next
  assume le: "length (reqParams self) \<le> length pc"
  let ?names = "reqParams self @ optParams self"
  from fetch_args_ok [OF le] obtain kw where kw: "fetch_args self pc = Inr kw"
    "map_of kw = Map.empty(?names [\<mapsto>] map PyStr pc)"
    by blast
  have "map_of kw (?names ! i) = (if i < length pc then Some (PyStr (pc ! i)) else None)"
    if "distinct ?names" "i < length ?names" for i
    using map_upds_nth [OF that, of Map.empty "map PyStr pc"] kw(2) by simp
  with kw show "\<exists>kw. fetch_args self pc = Inr kw \<and>
            map_of kw = Map.empty(?names [\<mapsto>] map PyStr pc) \<and>
            (distinct ?names \<longrightarrow>
               (\<forall>i < length ?names.
                  map_of kw (?names ! i) =
                    (if i < length pc then Some (PyStr (pc ! i)) else None)))"
    by blast
next
  show "fetch_args self (take (length (reqParams self) + length (optParams self)) pc) =
        fetch_args self pc"
    by (rule fetch_args_take)
qed

lemma example_validates:
  "validate_context example_env example_command example_client (example_message text) pc =
     (if length pc < 2 then Inr (False, Some (MissingParameters 2 (length pc)))
      else Inr (True, None))"
  by (simp add: validate_context_def example_env_def example_command_def example_message_def
      example_channel_def example_attributes_def Let_def)

lemma example_fetch_args:
  "fetch_args example_command [str ''w'', str ''x'', str ''y'', str ''z''] =
     Inr [(str ''a'', PyStr (str ''w'')), (str ''b'', PyStr (str ''x'')),
          (str ''c'', PyStr (str ''y''))]"
  by (simp add: fetch_args_def example_command_def enumerate_eq_zip str_def Let_def)

theorem missing_parameters_and_fetch_args_witness:
  "validate_context example_env example_command example_client (example_message [])
     [str ''w'', str ''x''] = Inr (True, None) \<and>
   validate_context example_env example_command example_client (example_message []) [] =
     Inr (False, Some (MissingParameters 2 0)) \<and>
   validate_context example_env example_command example_client (example_message [])
     [str ''w''] = Inr (False, Some (MissingParameters 2 1)) \<and>
   distinct (reqParams example_command @ optParams example_command) \<and>
   fetch_args example_command [str ''w'', str ''x'', str ''y'', str ''z''] =
     Inr [(str ''a'', PyStr (str ''w'')), (str ''b'', PyStr (str ''x'')),
          (str ''c'', PyStr (str ''y''))] \<and>
   fetch_args example_command [str ''w'', str ''x''] =
     Inr [(str ''a'', PyStr (str ''w'')), (str ''b'', PyStr (str ''x''))]"
proof -
  have ok: "validate_context example_env example_command example_client (example_message [])
     [str ''w'', str ''x''] = Inr (True, None)"
    by (simp add: example_validates)
  have r: "length (reqParams example_command) = 2"
    by (simp add: example_command_def)
  have d: "distinct (reqParams example_command @ optParams example_command)"
    by (simp add: example_command_def str_def)
  have m0: "validate_context example_env example_command example_client (example_message []) [] =
     Inr (False, Some (MissingParameters 2 0))"
    using missing_parameters_and_fetch_args
      [of "[]" example_command example_env example_client "example_message []"
          "[str ''w'', str ''x'']"] ok r
    by simp
  have m1: "validate_context example_env example_command example_client (example_message [])
     [str ''w''] = Inr (False, Some (MissingParameters 2 1))"
    using missing_parameters_and_fetch_args
      [of "[str ''w'']" example_command example_env example_client "example_message []"
          "[str ''w'', str ''x'']"] ok r
    by simp
  have f2: "fetch_args example_command [str ''w'', str ''x''] =
     Inr [(str ''a'', PyStr (str ''w'')), (str ''b'', PyStr (str ''x''))]"
    by (simp add: fetch_args_def example_command_def enumerate_eq_zip str_def Let_def)
  show ?thesis using ok m0 m1 d example_fetch_args f2 by simp
qed

section \<open>Properties of command recognition\<close>

text \<open>
  C2. With the tokens of \<open>message.content.split()\<close>: no token recognizes no command.
  In a private channel the command name is token 0 and the arguments are the tokens
  from index 1. In any other channel one token recognizes no command; with two or more,
  a command is recognized exactly when token 0 is the server's trigger or the bot's user
  is among the mentions, the name then being token 1 and the arguments the tokens from
  index 2. A name that \<open>find\<close> does not resolve recognizes no command.
\<close>

theorem get_command_and_postcommand_spec:
  "get_command_and_postcommand env self client message =
     (case str_split (content message) of
        [] \<Rightarrow> None
      | token0 # rest \<Rightarrow>
          if is_private (channel message) then
            map_option (\<lambda>command. (command, rest)) (find_command self token0)
          else
            (case rest of
               [] \<Rightarrow> None
             | token1 # rest' \<Rightarrow>
                 if token0 = get_server_trigger env (server message) \<or>
                    user client \<in> set (mentions message)
                 then map_option (\<lambda>command. (command, rest')) (find_command self token1)
                 else None))"
proof (cases "str_split (content message)")
  case Nil
  then show ?thesis by (simp add: get_command_and_postcommand_def)
next
  case (Cons token0 rest)
  show ?thesis
  proof (cases rest)
    case Nil
    with Cons show ?thesis
      by (simp add: get_command_and_postcommand_def slice_def Let_def split: option.splits)
  next
    case rest: (Cons token1 rest')
    with Cons show ?thesis
      by (simp add: get_command_and_postcommand_def slice_def Let_def split: option.splits)
  qed
qed

section \<open>Properties of find\<close>

lemma find_loop_first:
  "\<forall>d \<in> set pre. \<not> validate_name d n \<Longrightarrow> validate_name c n \<Longrightarrow>
     find_loop (pre @ c # post) n = Some c"
  by (induction pre) auto

lemma find_loop_none:
  "\<forall>d \<in> set cs. \<not> validate_name d n \<Longrightarrow> find_loop cs n = None"
  by (induction cs) auto

text \<open>
  C4, as stated, fails: with \<open>bar\<close> (alias \<open>foo\<close>) registered before \<open>foo\<close>,
  \<open>find("foo")\<close> returns \<open>bar\<close>, not the command named \<open>foo\<close>.
\<close>

theorem find_name_over_alias_counterexample:
  "commands example_registry = [example_bar, example_foo] \<and>
   name example_foo = str ''foo'' \<and>
   str ''foo'' \<in> set (aliases example_bar) \<and>
   find_command example_registry (str ''foo'') = Some example_bar \<and>
   find_command example_registry (str ''foo'') \<noteq> Some example_foo"
  by (simp add: example_registry_def add_def CommandsHandler_init_def find_command_def
      validate_name_def example_bar_def example_foo_def str_def)

text \<open>
  C4, amended. \<open>find(name)\<close> returns the first command in registration order whose
  name is \<open>name\<close> or whose aliases contain it, whichever of the two matched, and
  nothing when no command matches. So an earlier-registered command that lists
  \<open>foo\<close> as an alias is returned before a later command named \<open>foo\<close>.
\<close>

theorem find_first_match:
  "(validate_name c n \<longleftrightarrow> name c = n \<or> n \<in> set (aliases c)) \<and>
   (commands self = pre @ c # post \<and> (\<forall>d \<in> set pre. \<not> validate_name d n) \<and> validate_name c n
      \<longrightarrow> find_command self n = Some c) \<and>
   ((\<forall>d \<in> set (commands self). \<not> validate_name d n) \<longrightarrow> find_command self n = None)"
  by (auto simp: find_command_def find_loop_first find_loop_none validate_name_def)

theorem find_first_match_witness:
  "commands example_registry = [] @ example_bar # [example_foo] \<and>
   validate_name example_bar (str ''foo'') \<and>
   find_command example_registry (str ''foo'') = Some example_bar \<and>
   \<not> validate_name example_bar (str ''baz'') \<and> \<not> validate_name example_foo (str ''baz'') \<and>
   find_command example_registry (str ''baz'') = None"
proof -
  have c: "commands example_registry = [] @ example_bar # [example_foo]"
    by (simp add: example_registry_def add_def CommandsHandler_init_def)
  have v: "validate_name example_bar (str ''foo'')"
    by (simp add: validate_name_def example_bar_def)
  have n: "\<not> validate_name example_bar (str ''baz'')" "\<not> validate_name example_foo (str ''baz'')"
    by (simp_all add: validate_name_def example_bar_def example_foo_def str_def)
  have "find_command example_registry (str ''foo'') = Some example_bar"
    using find_first_match [of example_bar "str ''foo''" example_registry "[]" "[example_foo]"] c v
    by simp
  moreover have "find_command example_registry (str ''baz'') = None"
    using find_first_match [of example_bar "str ''baz''" example_registry "[]" "[example_foo]"] c n
    by simp
  ultimately show ?thesis using c v n by simp
qed

section \<open>Properties of try_execute\<close>

lemma fetch_args_validated:
  assumes "validate_context env command client message postCommand = Inr (True, None)"
  shows "\<exists>kw. fetch_args command postCommand = Inr kw"
proof -
  have "length (reqParams command) \<le> length postCommand"
    using assms
    by (cases "challongeAccess (attributes command)")
       (auto simp: validate_context_def Let_def
          split: prod.splits option.splits sum.splits if_splits)
  from fetch_args_ok [OF this] show ?thesis by blast
qed

text \<open>
  C5. For a recognized command: when \<open>validate_context\<close> raises, \<open>try_execute\<close>
  prints the line with the message content and the exception and does nothing else (no
  chat message, no execution); when it returns an error value, that value is sent to the
  message's channel and nothing else happens; a callback is called only when validation
  returned (True, no error), and then the command's callback is called.
\<close>

theorem try_execute_validation:
  "get_command_and_postcommand env self client message = Some (command, postCommand) \<longrightarrow>
     (\<forall>e. validate_context env command client message postCommand = Inl e \<longrightarrow>
          try_execute env self client message = ([Print_exception (content message) e], None)) \<and>
     (\<forall>v err. validate_context env command client message postCommand = Inr (v, Some err) \<longrightarrow>
          try_execute env self client message = ([Send_message (channel message) err], None)) \<and>
     (\<forall>f kw. Call_callback f kw \<in> set (fst (try_execute env self client message)) \<longrightarrow>
          validate_context env command client message postCommand = Inr (True, None)) \<and>
     (validate_context env command client message postCommand = Inr (True, None) \<longrightarrow>
          (\<exists>kw evs. fst (try_execute env self client message) = Call_callback (cb command) kw # evs))"
proof (intro impI conjI allI)
  fix e
  assume "get_command_and_postcommand env self client message = Some (command, postCommand)"
    and "validate_context env command client message postCommand = Inl e"
  then show "try_execute env self client message = ([Print_exception (content message) e], None)"
    by (simp add: try_execute_def)
next
  fix v err
  assume "get_command_and_postcommand env self client message = Some (command, postCommand)"
    and "validate_context env command client message postCommand = Inr (v, Some err)"
  then show "try_execute env self client message = ([Send_message (channel message) err], None)"
    by (simp add: try_execute_def)
next
  fix f kw
  assume g: "get_command_and_postcommand env self client message = Some (command, postCommand)"
    and c: "Call_callback f kw \<in> set (fst (try_execute env self client message))"
  show "validate_context env command client message postCommand = Inr (True, None)"
  proof (cases "validate_context env command client message postCommand")
    case (Inl e)
    with g c show ?thesis by (simp add: try_execute_def)
  next
    case (Inr r)
    obtain v exc where r: "r = (v, exc)" by (cases r)
    with g c Inr show ?thesis
      by (cases exc; cases v) (simp_all add: try_execute_def)
  qed
next
  assume g: "get_command_and_postcommand env self client message = Some (command, postCommand)"
    and v: "validate_context env command client message postCommand = Inr (True, None)"
  from fetch_args_validated [OF v] obtain args where "fetch_args command postCommand = Inr args"
    by blast
  with g v show "\<exists>kw evs. fst (try_execute env self client message) = Call_callback (cb command) kw # evs"
    by (auto simp: try_execute_def execute_def Let_def split: option.splits)
qed


lemma example_split:
  "str_split (str ''!bot start'') = [str ''!bot'', str ''start'']"
  "str_split (str ''!bot kick'') = [str ''!bot'', str ''kick'']"
  "str_split (str ''!bot join w x'') = [str ''!bot'', str ''join'', str ''w'', str ''x'']"
  by (simp_all add: str_split_def str_def is_space_def)

lemma example_recognized:
  "get_command_and_postcommand example_env example_handler_raising example_client
     (example_message (str ''!bot start'')) = Some (example_start, [])"
  "get_command_and_postcommand example_env example_handler_raising example_client
     (example_message (str ''!bot kick'')) = Some (example_kick, [])"
  "get_command_and_postcommand example_env example_handler_raising example_client
     (example_message (str ''!bot join w x'')) = Some (example_command, [str ''w'', str ''x''])"
  by (simp_all add: get_command_and_postcommand_def example_message_sel example_split
        slice_def Let_def)
     (simp_all add: example_env_def example_channel_def example_handler_raising_def
        find_command_def validate_name_def example_kick_def example_command_def
        example_start_def str_def slice_def)

lemma example_validation:
  "validate_context example_env example_start example_client
     (example_message (str ''!bot start'')) [] = Inl (Raised 0)"
  "validate_context example_env example_kick example_client
     (example_message (str ''!bot kick'')) [] = Inr (False, Some InsufficientPrivileges)"
  "validate_context example_env example_command example_client
     (example_message (str ''!bot join w x'')) [str ''w'', str ''x''] = Inr (True, None)"
  by (simp_all add: validate_context_def example_defs Let_def)

lemma example_execute:
  "fst (try_execute example_env example_handler_raising example_client
         (example_message (str ''!bot join w x''))) =
     [Call_callback (cb example_command)
        [(str ''a'', PyStr (str ''w'')), (str ''b'', PyStr (str ''x''))],
      Print_validated (str ''join'') (str '' w x'') (str ''guild/#general'')]"
  by (simp add: try_execute_def example_recognized example_validation execute_def
        example_message_sel)
     (simp add: example_env_def example_command_def example_channel_def example_server_def
        fetch_args_def fetch_helpers_def dict_update_def enumerate_eq_zip str_def Let_def)

theorem try_execute_validation_witness:
  "get_command_and_postcommand example_env example_handler_raising example_client
     (example_message (str ''!bot start'')) = Some (example_start, []) \<and>
   validate_context example_env example_start example_client
     (example_message (str ''!bot start'')) [] = Inl (Raised 0) \<and>
   try_execute example_env example_handler_raising example_client
     (example_message (str ''!bot start'')) =
       ([Print_exception (str ''!bot start'') (Raised 0)], None) \<and>
   get_command_and_postcommand example_env example_handler_raising example_client
     (example_message (str ''!bot kick'')) = Some (example_kick, []) \<and>
   validate_context example_env example_kick example_client
     (example_message (str ''!bot kick'')) [] = Inr (False, Some InsufficientPrivileges) \<and>
   try_execute example_env example_handler_raising example_client
     (example_message (str ''!bot kick'')) =
       ([Send_message example_channel InsufficientPrivileges], None) \<and>
   get_command_and_postcommand example_env example_handler_raising example_client
     (example_message (str ''!bot join w x'')) =
       Some (example_command, [str ''w'', str ''x'']) \<and>
   Call_callback (cb example_command)
       [(str ''a'', PyStr (str ''w'')), (str ''b'', PyStr (str ''x''))]
     \<in> set (fst (try_execute example_env example_handler_raising example_client
                  (example_message (str ''!bot join w x'')))) \<and>
   validate_context example_env example_command example_client
     (example_message (str ''!bot join w x'')) [str ''w'', str ''x''] = Inr (True, None)"
proof -
  note T1 = try_execute_validation
      [of example_env example_handler_raising example_client
          "example_message (str ''!bot start'')" example_start "[]",
       THEN mp, OF example_recognized(1)]
  note T2 = try_execute_validation
      [of example_env example_handler_raising example_client
          "example_message (str ''!bot kick'')" example_kick "[]",
       THEN mp, OF example_recognized(2)]
  note T3 = try_execute_validation
      [of example_env example_handler_raising example_client
          "example_message (str ''!bot join w x'')" example_command "[str ''w'', str ''x'']",
       THEN mp, OF example_recognized(3)]
  have t1: "try_execute example_env example_handler_raising example_client
     (example_message (str ''!bot start'')) =
       ([Print_exception (str ''!bot start'') (Raised 0)], None)"
    using T1 [THEN conjunct1, rule_format, OF example_validation(1)]
    by (simp only: example_message_sel)
  have t2: "try_execute example_env example_handler_raising example_client
     (example_message (str ''!bot kick'')) =
       ([Send_message example_channel InsufficientPrivileges], None)"
    using T2 [THEN conjunct2, THEN conjunct1, rule_format, OF example_validation(2)]
    by (simp only: example_message_sel)
  have c: "Call_callback (cb example_command)
       [(str ''a'', PyStr (str ''w'')), (str ''b'', PyStr (str ''x''))]
     \<in> set (fst (try_execute example_env example_handler_raising example_client
                  (example_message (str ''!bot join w x''))))"
    by (simp only: example_execute list.set insertI1)
  have t3: "validate_context example_env example_command example_client
     (example_message (str ''!bot join w x'')) [str ''w'', str ''x''] = Inr (True, None)"
    by (rule T3 [THEN conjunct2, THEN conjunct2, THEN conjunct1, rule_format, OF c])
  show ?thesis
    by (intro conjI) (fact t1 t2 t3 c example_recognized example_validation)+
qed

section \<open>Properties of AuthorizedCommandsWrapper\<close>

declare async_for.simps [simp del]

lemma async_for_Nil:
  "async_for env \<lparr>w_client = cl, w_message = m, w_commands = []\<rparr> = ([], None)"
  by (simp add: async_for.simps anext_def)

lemma async_for_skip:
  assumes "validation_returns env cl m c" "\<not> listed env cl m c"
  shows "async_for env \<lparr>w_client = cl, w_message = m, w_commands = c # cs\<rparr> =
         async_for env \<lparr>w_client = cl, w_message = m, w_commands = cs\<rparr>"
proof -
  have "anext env \<lparr>w_client = cl, w_message = m, w_commands = c # cs\<rparr> =
        anext env \<lparr>w_client = cl, w_message = m, w_commands = cs\<rparr>"
    using assms
    by (auto simp: anext_def listed_def validation_returns_def split: sum.splits prod.splits)
  then show ?thesis
    by (simp add: async_for.simps [of env "\<lparr>w_client = cl, w_message = m, w_commands = c # cs\<rparr>"]
        async_for.simps [of env "\<lparr>w_client = cl, w_message = m, w_commands = cs\<rparr>"])
qed

lemma async_for_yield:
  assumes "listed env cl m c" "simple_print c = Inr s"
  shows "async_for env \<lparr>w_client = cl, w_message = m, w_commands = c # cs\<rparr> =
         (s # fst (async_for env \<lparr>w_client = cl, w_message = m, w_commands = cs\<rparr>),
          snd (async_for env \<lparr>w_client = cl, w_message = m, w_commands = cs\<rparr>))"
proof -
  have "anext env \<lparr>w_client = cl, w_message = m, w_commands = c # cs\<rparr> =
        (Inr s, \<lparr>w_client = cl, w_message = m, w_commands = cs\<rparr>)"
    using assms
    by (auto simp: anext_def listed_def split: sum.splits prod.splits)
  then show ?thesis
    by (simp add: async_for.simps [of env "\<lparr>w_client = cl, w_message = m, w_commands = c # cs\<rparr>"]
        split: prod.splits)
qed

lemma async_for_raise:
  assumes "validate_context env c cl m [] = Inl e"
  shows "async_for env \<lparr>w_client = cl, w_message = m, w_commands = c # cs\<rparr> =
         ([], if e = StopAsyncIteration then None else Some e)"
  using assms
  by (simp add: async_for.simps [of env "\<lparr>w_client = cl, w_message = m, w_commands = c # cs\<rparr>"]
      anext_def)

lemma async_for_prefix:
  assumes "\<forall>c \<in> set pre. validation_returns env cl m c \<and>
             (listed env cl m c \<longrightarrow> description_renders c)"
  shows "async_for env \<lparr>w_client = cl, w_message = m, w_commands = pre @ cs\<rparr> =
         (map description (filter (listed env cl m) pre)
            @ fst (async_for env \<lparr>w_client = cl, w_message = m, w_commands = cs\<rparr>),
          snd (async_for env \<lparr>w_client = cl, w_message = m, w_commands = cs\<rparr>))"
  using assms
proof (induction pre)
  case Nil
  show ?case by simp
next
  case (Cons c pre)
  then have IH: "async_for env \<lparr>w_client = cl, w_message = m, w_commands = pre @ cs\<rparr> =
         (map description (filter (listed env cl m) pre)
            @ fst (async_for env \<lparr>w_client = cl, w_message = m, w_commands = cs\<rparr>),
          snd (async_for env \<lparr>w_client = cl, w_message = m, w_commands = cs\<rparr>))"
    by simp
  from Cons.prems have r: "validation_returns env cl m c"
    and d: "listed env cl m c \<longrightarrow> description_renders c" by simp_all
  show ?case
  proof (cases "listed env cl m c")
    case True
    with d obtain s where s: "simple_print c = Inr s"
      by (auto simp: description_renders_def split: sum.splits)
    then have "description c = s" by (simp add: description_def)
    with True show ?thesis
      using async_for_yield [OF True s, of "pre @ cs"] IH by simp
  next
    case False
    then show ?thesis
      using async_for_skip [OF r False, of "pre @ cs"] IH by simp
  qed
qed

text \<open>
  C6, amended. When validation raises for no command of the registry and the description
  of every listed command renders, iterating the wrapper yields, in registry order,
  exactly the descriptions of the listed commands: a command that fails for another
  reason is skipped and the iteration goes on to the end of the registry. When
  validation raises for a command, the iteration ends there with that exception, after
  the descriptions of the listed commands before it.
\<close>

theorem authorized_commands_listing:
  "((\<forall>c \<in> set (commands registry).
        validation_returns env client message c \<and>
        (listed env client message c \<longrightarrow> description_renders c)) \<longrightarrow>
      async_for env (AuthorizedCommandsWrapper_init registry client message) =
        (map description (filter (listed env client message) (commands registry)), None)) \<and>
   (commands registry = pre @ c # post \<and>
    (\<forall>d \<in> set pre. validation_returns env client message d \<and>
        (listed env client message d \<longrightarrow> description_renders d)) \<and>
    validate_context env c client message [] = Inl e \<and> e \<noteq> StopAsyncIteration \<longrightarrow>
      async_for env (AuthorizedCommandsWrapper_init registry client message) =
        (map description (filter (listed env client message) pre), Some e))"
proof (intro conjI impI)
  assume a: "\<forall>c \<in> set (commands registry).
        validation_returns env client message c \<and>
        (listed env client message c \<longrightarrow> description_renders c)"
  show "async_for env (AuthorizedCommandsWrapper_init registry client message) =
        (map description (filter (listed env client message) (commands registry)), None)"
    using async_for_prefix [OF a, of "[]"]
    by (simp add: AuthorizedCommandsWrapper_init_def async_for_Nil)
next
  assume a: "commands registry = pre @ c # post \<and>
    (\<forall>d \<in> set pre. validation_returns env client message d \<and>
        (listed env client message d \<longrightarrow> description_renders d)) \<and>
    validate_context env c client message [] = Inl e \<and> e \<noteq> StopAsyncIteration"
  then have p: "\<forall>d \<in> set pre. validation_returns env client message d \<and>
        (listed env client message d \<longrightarrow> description_renders d)"
    and r: "validate_context env c client message [] = Inl e" by simp_all
  show "async_for env (AuthorizedCommandsWrapper_init registry client message) =
        (map description (filter (listed env client message) pre), Some e)"
    using async_for_prefix [OF p, of "c # post"] async_for_raise [OF r, of post] a
    by (simp add: AuthorizedCommandsWrapper_init_def)
qed


lemma example_listing_validation:
  "validate_context example_env example_kick example_client (example_message []) [] =
     Inr (False, Some InsufficientPrivileges)"
  "validate_context example_env example_command example_client (example_message []) [] =
     Inr (False, Some (MissingParameters 2 0))"
  "validate_context example_env example_foo example_client (example_message []) [] =
     Inr (True, None)"
  "validate_context example_env example_start example_client (example_message []) [] =
     Inl (Raised 0)"
  by (simp_all add: validate_context_def example_defs Let_def)

lemma example_descriptions:
  "simple_print example_command = Inr (str ''`join` [a] [b]{c} -- *Join a tournament*'')"
  "simple_print example_foo = Inr (str ''`foo`  -- *No description available*'')"
  by (simp_all add: simple_print_def example_command_def example_foo_def splitlines_def
      is_linebreak_def str_def Let_def)

lemma example_listed:
  "validation_returns example_env example_client (example_message []) example_kick"
  "\<not> listed example_env example_client (example_message []) example_kick"
  "validation_returns example_env example_client (example_message []) example_command"
  "listed example_env example_client (example_message []) example_command"
  "validation_returns example_env example_client (example_message []) example_foo"
  "listed example_env example_client (example_message []) example_foo"
  "description_renders example_command"
  "description_renders example_foo"
  "description example_command = str ''`join` [a] [b]{c} -- *Join a tournament*''"
  "description example_foo = str ''`foo`  -- *No description available*''"
  by (simp_all add: validation_returns_def listed_def description_renders_def description_def
      example_listing_validation example_descriptions)

text \<open>
  C6, as stated, fails: \<open>foo\<close> validates successfully, but the validator raises for
  \<open>start\<close>, registered before it, and the iteration ends there without yielding the
  description of \<open>foo\<close>.
\<close>

theorem authorized_commands_listing_counterexample:
  "commands example_handler_raising =
     [example_kick, example_command, example_start, example_foo] \<and>
   validate_context example_env example_foo example_client (example_message []) [] =
     Inr (True, None) \<and>
   simple_print example_foo = Inr (str ''`foo`  -- *No description available*'') \<and>
   async_for example_env
     (AuthorizedCommandsWrapper_init example_handler_raising example_client (example_message []))
     = ([str ''`join` [a] [b]{c} -- *Join a tournament*''], Some (Raised 0))"
proof -
  have "async_for example_env
     \<lparr>w_client = example_client, w_message = example_message [],
        w_commands = [example_kick, example_command] @ [example_start, example_foo]\<rparr>
     = ([str ''`join` [a] [b]{c} -- *Join a tournament*''], Some (Raised 0))"
    by (subst async_for_prefix)
       (simp_all add: example_listed async_for_raise [OF example_listing_validation(4)])
  then show ?thesis
    by (simp add: AuthorizedCommandsWrapper_init_def example_handler_raising_def
        example_listing_validation example_descriptions)
qed

theorem authorized_commands_listing_witness:
  "commands example_handler = [example_kick, example_command, example_foo] \<and>
   async_for example_env
     (AuthorizedCommandsWrapper_init example_handler example_client (example_message []))
     = ([str ''`join` [a] [b]{c} -- *Join a tournament*'',
         str ''`foo`  -- *No description available*''], None) \<and>
   commands example_handler_raising = [example_kick, example_command] @ example_start # [example_foo] \<and>
   validate_context example_env example_start example_client (example_message []) [] =
     Inl (Raised 0) \<and>
   async_for example_env
     (AuthorizedCommandsWrapper_init example_handler_raising example_client (example_message []))
     = ([str ''`join` [a] [b]{c} -- *Join a tournament*''], Some (Raised 0))"
proof -
  have c1: "commands example_handler = [example_kick, example_command, example_foo]"
    by (simp add: example_handler_def)
  have c2: "commands example_handler_raising =
      [example_kick, example_command] @ example_start # [example_foo]"
    by (simp add: example_handler_raising_def)
  have h1: "\<forall>c \<in> set (commands example_handler).
        validation_returns example_env example_client (example_message []) c \<and>
        (listed example_env example_client (example_message []) c \<longrightarrow> description_renders c)"
    by (simp add: c1 example_listed)
  have h2: "\<forall>d \<in> set [example_kick, example_command].
        validation_returns example_env example_client (example_message []) d \<and>
        (listed example_env example_client (example_message []) d \<longrightarrow> description_renders d)"
    by (simp add: example_listed)
  have a1: "async_for example_env
     (AuthorizedCommandsWrapper_init example_handler example_client (example_message []))
     = ([str ''`join` [a] [b]{c} -- *Join a tournament*'',
         str ''`foo`  -- *No description available*''], None)"
    using authorized_commands_listing
      [of example_handler example_env example_client "example_message []",
       THEN conjunct1, THEN mp, OF h1]
    by (simp add: c1 example_listed)
  have a2: "async_for example_env
     (AuthorizedCommandsWrapper_init example_handler_raising example_client (example_message []))
     = ([str ''`join` [a] [b]{c} -- *Join a tournament*''], Some (Raised 0))"
    using authorized_commands_listing
      [of example_handler_raising example_env example_client "example_message []"
          "[example_kick, example_command]" example_start "[example_foo]" "Raised 0",
       THEN conjunct2, THEN mp, OF conjI [OF c2 conjI [OF h2 conjI [OF example_listing_validation(4)]]]]
    by (simp add: example_listed)
  show ?thesis
    by (intro conjI) (fact c1 c2 a1 a2 example_listing_validation)+
qed

section \<open>Properties of the builder methods\<close>

text \<open>
  C9. Called on the object at reference \<open>self\<close>, each of \<open>add_required_params\<close>,
  \<open>add_optional_params\<close>, \<open>add_aliases\<close> and \<open>add_helpers\<close> returns \<open>self\<close> and
  leaves a store in which that object has the call's arguments as its list, every other
  field as before, and every other object as before. After two calls of the same builder
  the list holds the arguments of the second call only.
\<close>

theorem builders_replace_and_return_self:
  "s self = Some c \<longrightarrow>
     add_required_params self xs s = (self, s(self \<mapsto> c\<lparr>reqParams := xs\<rparr>)) \<and>
     add_required_params self ys (snd (add_required_params self xs s))
       = (self, s(self \<mapsto> c\<lparr>reqParams := ys\<rparr>)) \<and>
     add_optional_params self xs s = (self, s(self \<mapsto> c\<lparr>optParams := xs\<rparr>)) \<and>
     add_optional_params self ys (snd (add_optional_params self xs s))
       = (self, s(self \<mapsto> c\<lparr>optParams := ys\<rparr>)) \<and>
     add_aliases self xs s = (self, s(self \<mapsto> c\<lparr>aliases := xs\<rparr>)) \<and>
     add_aliases self ys (snd (add_aliases self xs s))
       = (self, s(self \<mapsto> c\<lparr>aliases := ys\<rparr>)) \<and>
     add_helpers self xs s = (self, s(self \<mapsto> c\<lparr>helpers := xs\<rparr>)) \<and>
     add_helpers self ys (snd (add_helpers self xs s))
       = (self, s(self \<mapsto> c\<lparr>helpers := ys\<rparr>))"
  by (simp add: add_required_params_def add_optional_params_def add_aliases_def add_helpers_def)

theorem builders_replace_and_return_self_witness:
  "example_store 0 = Some example_command \<and>
   add_required_params 0 [str ''x'']
       (snd (add_required_params 0 [str ''p'', str ''q''] example_store))
     = (0, example_store(0 \<mapsto> example_command\<lparr>reqParams := [str ''x'']\<rparr>)) \<and>
   add_aliases 0 [] (snd (add_aliases 0 [str ''j''] example_store))
     = (0, example_store(0 \<mapsto> example_command\<lparr>aliases := []\<rparr>))"
proof -
  have h: "example_store 0 = Some example_command"
    by (simp add: example_store_def)
  note T = builders_replace_and_return_self
      [of example_store 0 example_command "[str ''p'', str ''q'']" "[str ''x'']", THEN mp, OF h]
  note U = builders_replace_and_return_self
      [of example_store 0 example_command "[str ''j'']" "[]", THEN mp, OF h]
  have a: "add_required_params 0 [str ''x'']
       (snd (add_required_params 0 [str ''p'', str ''q''] example_store))
     = (0, example_store(0 \<mapsto> example_command\<lparr>reqParams := [str ''x'']\<rparr>))"
    by (rule T [THEN conjunct2, THEN conjunct1])
  have b: "add_aliases 0 [] (snd (add_aliases 0 [str ''j''] example_store))
     = (0, example_store(0 \<mapsto> example_command\<lparr>aliases := []\<rparr>))"
    by (rule U [THEN conjunct2, THEN conjunct2, THEN conjunct2, THEN conjunct2,
                THEN conjunct2, THEN conjunct1])
  show ?thesis by (intro conjI) (fact h a b)+
qed

section \<open>Properties of register and the descriptions\<close>

text \<open>
  The Command that \<open>register\<close> adds has the name of \<open>func\<close>, the wrapper with the
  documentation of \<open>func\<close> as its callback, and empty lists.
\<close>

lemma register_command:
  "fst (register env self attributes' func) =
     \<lparr>name = fn_name func, cb = PyFunc (str ''wrapper'') (fn_doc func) (Some func),
      attributes = Attributes_init env attributes',
      aliases = [], reqParams = [], optParams = [], helpers = []\<rparr>"
  by (simp add: register_def add_def Command_init_def Let_def)

text \<open>
  When \<open>func\<close> has a documentation string that is not empty, \<open>simple_print\<close>
  renders its first line and \<open>pretty_print\<close> the whole of it; when it has none,
  \<open>simple_print\<close> renders the fallback.
\<close>

lemma register_renders_documentation:
  assumes "fn_doc func = Some doc" and "doc \<noteq> []"
  shows "\<exists>line rest. splitlines False doc = line # rest \<and>
           simple_print (fst (register env self attributes' func)) =
             Inr (str ''`'' @ fn_name func @ str ''`  -- *'' @ line @ str ''*'') \<and>
           pretty_print (fst (register env self attributes' func)) =
             Inr (str ''`'' @ fn_name func @ str ''`  -- *'' @ line @ str ''*''
                  @ str ''\<newline>```'' @ doc @ str ''No aliases```'')"
proof -
  from assms(2) have "splitlines False doc \<noteq> []"
    by (simp add: splitlines_def splitlines_aux_Nil_iff)
  then obtain line rest where l: "splitlines False doc = line # rest"
    by (cases "splitlines False doc") auto
  show ?thesis
    using l assms(1)
    by (simp add: register_command simple_print_def pretty_print_def str_def)
qed

lemma register_no_documentation:
  assumes "fn_doc func = None"
  shows "simple_print (fst (register env self attributes' func)) =
           Inr (str ''`'' @ fn_name func @ str ''`  -- *No description available*'')"
  using assms by (simp add: register_command simple_print_def str_def)

text \<open>
  C10 at a callback whose documentation is the empty string: \<open>register\<close> copies the
  empty string onto the wrapper, \<open>''.splitlines()\<close> is the empty list, and
  \<open>simple_print\<close> and \<open>pretty_print\<close> raise \<open>IndexError\<close> instead of rendering.
\<close>

theorem register_empty_documentation:
  "fn_doc (cb (fst (register example_env CommandsHandler_init example_kwargs
                      (PyFunc (str ''ping'') (Some []) None)))) = Some [] \<and>
   simple_print (fst (register example_env CommandsHandler_init example_kwargs
                        (PyFunc (str ''ping'') (Some []) None))) = Inl IndexError \<and>
   pretty_print (fst (register example_env CommandsHandler_init example_kwargs
                        (PyFunc (str ''ping'') (Some []) None))) = Inl IndexError"
  by (simp add: register_command simple_print_def pretty_print_def splitlines_def)

section \<open>The spec's examples\<close>

text \<open>
  The spec's example for \<open>paginate\<close>: three lines of six characters and a limit of ten
  give two pages, cut at a line boundary.
\<close>

lemma paginate_example:
  "paginate (str ''abcde\<newline>fghij\<newline>klmno\<newline>'') 10 =
     [str ''abcde\<newline>'', str ''fghij\<newline>klmno\<newline>'']"
  by (simp add: paginate_def splitlines_def is_linebreak_def str_def enumerate_eq_zip
      slice_def slice_from_def Let_def)

lemma paginate_short:
  "int (length text) < max_per_page \<Longrightarrow> paginate text max_per_page = [text]"
  by (simp add: paginate_def)

text \<open>
  An author below the command's permission level fails with
  \<open>InsufficientPrivileges\<close>, whatever the channel and the arguments.
\<close>

lemma validate_context_insufficient:
  "get_permissions env (author message) (channel message) < minPermissions (attributes self) \<Longrightarrow>
     validate_context env self client message postCommand =
       Inr (False, Some InsufficientPrivileges)"
  by (simp add: validate_context_def Let_def)

text \<open>
  A message in a server channel that neither starts with the trigger nor mentions the
  bot recognizes no command and has no effect.
\<close>

lemma try_execute_no_trigger:
  "try_execute example_env example_handler example_client
     (example_message (str ''hello join w x'')) = ([], None)"
  by (simp add: try_execute_def get_command_and_postcommand_def example_message_sel
      str_split_def is_space_def example_env_def example_channel_def example_client_def
      Let_def str_def)

end
